theory Spec2Isabelle
  imports Main
begin

section \<open>JavaScript values and the settings merger (utils.ts)\<close>

text \<open>
  The settings merger works on untyped JavaScript values. A value is modelled as a tree:
  primitives, functions (by identity), the built-in objects that \<^verbatim>\<open>clone\<close> treats
  specially (\<^verbatim>\<open>Date\<close>, \<^verbatim>\<open>Map\<close>, \<^verbatim>\<open>Set\<close>, with an opaque payload) and
  objects. An object is the list of its own enumerable properties in enumeration order,
  with a flag telling whether it is an array (\<^verbatim>\<open>Array.isArray\<close>); the elements of an
  array are the properties named \<^verbatim>\<open>"0"\<close>, \<^verbatim>\<open>"1"\<close>, ...
  Numbers are integers here (the settings only carry lengths and bounds).
  Values are trees: two occurrences of an object are two copies, so the \<^verbatim>\<open>seen\<close> map of
  \<^verbatim>\<open>deepMerge\<close>, which only answers for an object met twice by identity, never hits and
  is left out. Property reads see own properties only (no prototype chain).
\<close>

datatype jsval =
    JUndefined
  | JNull
  | JBool bool
  | JNum int
  | JStr string
  | JFun nat
  | JDate int
  | JMap nat
  | JSet nat
  | JObj bool "(string \<times> jsval) list"

datatype error = TypeError | SyntaxError | InvalidCharacterError | Thrown string

text \<open>\<^verbatim>\<open>v !== null && typeof v === "object"\<close>\<close>

fun is_object :: "jsval \<Rightarrow> bool" where
  "is_object (JObj arr ps) = True"
| "is_object (JDate d) = True"
| "is_object (JMap m) = True"
| "is_object (JSet s) = True"
| "is_object v = False"

fun isArray :: "jsval \<Rightarrow> bool" where
  "isArray (JObj arr ps) = arr"
| "isArray v = False"

text \<open>\<^verbatim>\<open>Object.keys(v)\<close> for an object \<^verbatim>\<open>v\<close>; the built-in objects have no own
  enumerable property.\<close>

fun own_keys :: "jsval \<Rightarrow> string list" where
  "own_keys (JObj arr ps) = map fst ps"
| "own_keys v = []"

text \<open>The read \<^verbatim>\<open>v[key]\<close> on an object: \<^verbatim>\<open>undefined\<close> for a missing property.\<close>

fun get :: "jsval \<Rightarrow> string \<Rightarrow> jsval" where
  "get (JObj arr ps) key = (case map_of ps key of Some v \<Rightarrow> v | None \<Rightarrow> JUndefined)"
| "get v key = JUndefined"

text \<open>The read \<^verbatim>\<open>v.key\<close> on any value: a \<^verbatim>\<open>TypeError\<close> on \<^verbatim>\<open>undefined\<close> and
  \<^verbatim>\<open>null\<close>.\<close>

definition property :: "jsval \<Rightarrow> string \<Rightarrow> error + jsval" where
  "property v key = (if v = JUndefined \<or> v = JNull then Inl TypeError else Inr (get v key))"

fun truthy :: "jsval \<Rightarrow> bool" where
  "truthy JUndefined = False"
| "truthy JNull = False"
| "truthy (JBool b) = b"
| "truthy (JNum n) = (n \<noteq> 0)"
| "truthy (JStr s) = (s \<noteq> [])"
| "truthy v = True"

definition is_digit :: "char \<Rightarrow> bool" where
  "is_digit c = (48 \<le> (of_char c :: nat) \<and> (of_char c :: nat) \<le> 57)"

text \<open>An array index as a property name: a decimal numeral without leading zero.\<close>

definition is_index :: "string \<Rightarrow> bool" where
  "is_index key = (key \<noteq> [] \<and> list_all is_digit key \<and> (key = ''0'' \<or> hd key \<noteq> CHR ''0''))"

text \<open>
  \<^verbatim>\<open>clone\<close>: primitives and functions are returned as they are, the built-in objects
  are copied, an array is mapped over its elements (\<^verbatim>\<open>value.map(clone)\<close>, which keeps
  the indexed properties only), any other object is rebuilt property by property.
\<close>

primrec clone :: "jsval \<Rightarrow> jsval" where
  "clone JUndefined = JUndefined"
| "clone JNull = JNull"
| "clone (JBool b) = JBool b"
| "clone (JNum n) = JNum n"
| "clone (JStr s) = JStr s"
| "clone (JFun f) = JFun f"
| "clone (JDate d) = JDate d"
| "clone (JMap m) = JMap m"
| "clone (JSet s) = JSet s"
| "clone (JObj arr ps) =
     JObj arr (filter (\<lambda>p. arr \<longrightarrow> is_index (fst p)) (map (map_prod id clone) ps))"

text \<open>\<^verbatim>\<open>new Set([...])\<close> iterated: the first occurrence of every key, in order.\<close>

definition key_set :: "string list \<Rightarrow> string list" where
  "key_set ks = rev (remdups (rev ks))"

text \<open>
  The inner \<^verbatim>\<open>merge(a, b)\<close> of \<^verbatim>\<open>deepMerge\<close>: a \<^verbatim>\<open>b\<close> that is not an object
  (\<^verbatim>\<open>undefined\<close> included) is the result; over an \<^verbatim>\<open>a\<close> that is not an object
  \<^verbatim>\<open>b\<close> is cloned; otherwise the result has the keys of both, each one cloned from
  \<^verbatim>\<open>a\<close> where \<^verbatim>\<open>b[key]\<close> is \<^verbatim>\<open>undefined\<close> and merged otherwise.
\<close>

function merge :: "jsval \<Rightarrow> jsval \<Rightarrow> jsval" where
  "merge a b =
     (if \<not> is_object b then b
      else if \<not> is_object a then clone b
      else JObj (isArray b)
             (map (\<lambda>key. (key, if get b key = JUndefined then clone (get a key)
                               else merge (get a key) (get b key)))
                  (key_set (own_keys a @ own_keys b))))"
  by pat_completeness auto
termination
proof -
  have m: "map_of ps key = Some v \<Longrightarrow> size v < Suc (size_list (size_prod (\<lambda>x. 0) size) ps)"
    for ps key and v :: jsval
    by (induction ps) (auto split: if_splits)
  have "get b key \<noteq> JUndefined \<Longrightarrow> size (get b key) < size b" for b key
    by (cases b) (auto split: option.splits simp: m)
  then show ?thesis
    by (relation "measure (\<lambda>(a, b). size b)") auto
qed

declare merge.simps [simp del]

definition deepMerge :: "jsval \<Rightarrow> jsval \<Rightarrow> jsval" where
  "deepMerge obj1 obj2 = merge obj1 obj2"

text \<open>
  A plain value is built from primitives, functions, arrays and plain objects only, and
  no object lists a property twice (a JavaScript object cannot). The configuration
  objects of the validator are plain: selectors, class and tag names, toggles, callbacks,
  the list of field rules and the message catalog.
\<close>

fun plain :: "jsval \<Rightarrow> bool" where
  "plain (JObj arr ps) = (distinct (map fst ps) \<and> (\<forall>p \<in> set ps. plain (snd p)))"
| "plain (JDate d) = False"
| "plain (JMap m) = False"
| "plain (JSet s) = False"
| "plain v = True"

section \<open>Construction and message loading (vanilla-form-validator.ts)\<close>

definition default_messages :: jsval where
  "default_messages = JObj False
     [(''required'', JStr ''This field is required.''),
      (''remote'', JStr ''Please fix this field.''),
      (''email'', JStr ''Please enter a valid email address.''),
      (''url'', JStr ''Please enter a valid URL.''),
      (''date'', JStr ''Please enter a valid date.''),
      (''number'', JStr ''Please enter a valid number.''),
      (''phone'', JStr ''Please enter a valid phone.''),
      (''file'', JStr ''Please select a file.''),
      (''equalTo'', JStr ''Please enter the same value again.''),
      (''maxlength'', JStr ''Please enter no more than {0} characters.''),
      (''minlength'', JStr ''Please enter at least {0} characters.''),
      (''rangelength'', JStr ''Please enter a value between {0} and {1} characters long''),
      (''max'', JStr ''Please enter a value than {0}.''),
      (''min'', JStr ''Please enter a value at least {0}.''),
      (''range'', JStr ''Please enter a value between {0} and {1}''),
      (''regExp'', JStr ''Please enter a value matching the requested format.'')]"

definition default_settings :: "jsval \<Rightarrow> jsval" where
  "default_settings msgs = JObj False
     [(''ignore'', JNull),
      (''fields'', JNull),
      (''autoValidate'', JBool True),
      (''errorPlacement'', JNull),
      (''errorElement'', JStr ''p''),
      (''errorClass'', JStr ''error''),
      (''errorFieldClass'', JNull),
      (''validFormClass'', JStr ''was-validated''),
      (''submitHandler'', JNull),
      (''messages'', msgs)]"

text \<open>The two instance members the merger writes: \<^verbatim>\<open>this.settings\<close> (\<^verbatim>\<open>undefined\<close>
  until the constructor sets it) and \<^verbatim>\<open>this.messages\<close>.\<close>

record js_instance =
  inst_settings :: jsval
  inst_messages :: jsval

text \<open>
  The constructor, up to the call of \<^verbatim>\<open>init\<close>. The first argument tells whether the
  selector gave a form (\<^verbatim>\<open>this.form\<close> is truthy); the second is the \<^verbatim>\<open>settings\<close>
  argument, \<^verbatim>\<open>undefined\<close> when the caller omits it.
\<close>

definition constructor :: "bool \<Rightarrow> jsval \<Rightarrow> error + js_instance" where
  "constructor form settings =
     (if form then
        (let s = deepMerge (default_settings default_messages) settings in
         case property s ''messages'' of
           Inl e \<Rightarrow> Inl e
         | Inr m \<Rightarrow> Inr \<lparr>inst_settings = s, inst_messages = deepMerge m default_messages\<rparr>)
      else Inr \<lparr>inst_settings = JUndefined, inst_messages = default_messages\<rparr>)"

text \<open>
  The continuation of \<^verbatim>\<open>loadMessages\<close> on the parsed JSON \<^verbatim>\<open>data\<close>. An exception
  raised by the read of \<^verbatim>\<open>data.messages\<close> is caught by the promise chain and logged:
  the instance is unchanged.
\<close>

definition loadMessages :: "jsval \<Rightarrow> js_instance \<Rightarrow> js_instance" where
  "loadMessages data inst =
     (if truthy (inst_settings inst) then
        (case property data ''messages'' of
           Inl e \<Rightarrow> inst
         | Inr m \<Rightarrow>
             if truthy m then inst\<lparr>inst_messages := deepMerge m (inst_messages inst)\<rparr>
             else inst)
      else inst)"

text \<open>
  The catalog invariant: an object that maps every key of the library's catalog to the
  library's own message.
\<close>

definition default_catalog :: "jsval \<Rightarrow> bool" where
  "default_catalog msgs = ((\<exists>ps. msgs = JObj False ps) \<and>
     (\<forall>key \<in> set (own_keys default_messages). get msgs key = get default_messages key))"

section \<open>Regular expressions\<close>

text \<open>
  The predicates of the library test a string against a regular expression literal of
  the form \<^verbatim>\<open>/^...$/\<close>. A literal is transcribed into the datatype below, operator by
  operator. Strings are lists of 8-bit characters: code units above \<^verbatim>\<open>U+00FF\<close> are
  outside the model.
\<close>

datatype regex =
    Eps
  | Class "char \<Rightarrow> bool"
  | Seq regex regex
  | Alt regex regex
  | Star regex
  | Repeat nat nat regex
  | NotAhead regex

text \<open>
  The matcher is a backtracking matcher written as a list of successes:
  \<open>residuals r s\<close> lists what is left of \<open>s\<close> after every way of matching \<open>r\<close> at its
  start. \<open>Star\<close> iterates the body while it consumes input (an iteration that matches
  the empty string ends the loop in JavaScript); \<open>Repeat lo hi\<close> is \<^verbatim>\<open>{lo,hi}\<close>;
  \<open>NotAhead\<close> is the negative look-ahead \<^verbatim>\<open>(?!...)\<close>.
\<close>

fun iterate :: "(string \<Rightarrow> string list) \<Rightarrow> nat \<Rightarrow> string \<Rightarrow> string list" where
  "iterate f 0 s = [s]"
| "iterate f (Suc n) s =
     s # concat (map (iterate f n) (filter (\<lambda>t. length t < length s) (f s)))"

fun repeat :: "(string \<Rightarrow> string list) \<Rightarrow> nat \<Rightarrow> nat \<Rightarrow> string \<Rightarrow> string list" where
  "repeat f lo 0 s = (if lo = 0 then [s] else [])"
| "repeat f lo (Suc hi) s =
     (if lo = 0 then [s] else []) @ concat (map (repeat f (lo - 1) hi) (f s))"

primrec residuals :: "regex \<Rightarrow> string \<Rightarrow> string list" where
  "residuals Eps s = [s]"
| "residuals (Class P) s = (case s of [] \<Rightarrow> [] | c # cs \<Rightarrow> if P c then [cs] else [])"
| "residuals (Seq r1 r2) s = concat (map (residuals r2) (residuals r1 s))"
| "residuals (Alt r1 r2) s = residuals r1 s @ residuals r2 s"
| "residuals (Star r) s = iterate (residuals r) (length s) s"
| "residuals (Repeat lo hi r) s = repeat (residuals r) lo hi s"
| "residuals (NotAhead r) s = (if residuals r s = [] then [s] else [])"

text \<open>\<^verbatim>\<open>/^r$/.test(s)\<close>: some way of matching \<open>r\<close> leaves nothing.\<close>

definition test :: "regex \<Rightarrow> string \<Rightarrow> bool" where
  "test r s = ([] \<in> set (residuals r s))"

definition Chr :: "char \<Rightarrow> regex" where
  "Chr c = Class (\<lambda>x. x = c)"

definition Many1 :: "regex \<Rightarrow> regex" where
  "Many1 r = Seq r (Star r)"

definition Opt :: "regex \<Rightarrow> regex" where
  "Opt r = Repeat 0 1 r"

definition AtLeast :: "nat \<Rightarrow> regex \<Rightarrow> regex" where
  "AtLeast n r = Seq (Repeat n n r) (Star r)"

definition toLowerCase :: "string \<Rightarrow> string" where
  "toLowerCase s =
     map (\<lambda>c. if 65 \<le> (of_char c :: nat) \<and> (of_char c :: nat) \<le> 90
              then char_of ((of_char c :: nat) + 32) else c) s"

text \<open>A literal, and a literal under the flag \<^verbatim>\<open>i\<close>.\<close>

fun Lit :: "string \<Rightarrow> regex" where
  "Lit [] = Eps"
| "Lit (c # cs) = Seq (Chr c) (Lit cs)"

fun LitI :: "string \<Rightarrow> regex" where
  "LitI [] = Eps"
| "LitI (c # cs) = Seq (Class (\<lambda>x. toLowerCase [x] = toLowerCase [c])) (LitI cs)"

definition in_range :: "nat \<Rightarrow> nat \<Rightarrow> char \<Rightarrow> bool" where
  "in_range lo hi c = (lo \<le> (of_char c :: nat) \<and> (of_char c :: nat) \<le> hi)"

definition is_lower :: "char \<Rightarrow> bool" where
  "is_lower c = in_range 97 122 c"

definition is_upper :: "char \<Rightarrow> bool" where
  "is_upper c = in_range 65 90 c"

definition is_alnum :: "char \<Rightarrow> bool" where
  "is_alnum c = (is_lower c \<or> is_upper c \<or> is_digit c)"

text \<open>\<^verbatim>\<open>\s\<close>, up to \<^verbatim>\<open>U+00FF\<close>: tab, line feed, vertical tab, form feed, carriage
  return, space, no-break space.\<close>

definition is_space :: "char \<Rightarrow> bool" where
  "is_space c = (in_range 9 13 c \<or> (of_char c :: nat) = 32 \<or> (of_char c :: nat) = 160)"

section \<open>The predicate library (isHelper.ts)\<close>

definition notEmpty :: "string \<Rightarrow> bool" where
  "notEmpty v = (length v > 0)"

text \<open>\<^verbatim>\<open>[a-zA-Z0-9.!#$%&'*+\/=?^_`{|}~-]\<close>\<close>

definition is_local :: "char \<Rightarrow> bool" where
  "is_local c = (is_alnum c \<or> c \<in> set ''.!#$%&*+/=?^_{|}~-'' \<or> c = CHR 0x27 \<or> c = CHR 0x60)"

definition is_alnum_hyphen :: "char \<Rightarrow> bool" where
  "is_alnum_hyphen c = (is_alnum c \<or> c = CHR ''-'')"

text \<open>\<^verbatim>\<open>[a-zA-Z0-9](?:[a-zA-Z0-9-]{0,61}[a-zA-Z0-9])?\<close>\<close>

definition label :: regex where
  "label = Seq (Class is_alnum)
             (Opt (Seq (Repeat 0 61 (Class is_alnum_hyphen)) (Class is_alnum)))"

text \<open>\<^verbatim>\<open>^[a-zA-Z0-9.!#$%&'*+\/=?^_`{|}~-]+@label(?:\.label)*$\<close>\<close>

definition email_regex :: regex where
  "email_regex =
     Seq (Many1 (Class is_local))
    (Seq (Chr CHR ''@'')
    (Seq label
         (Star (Seq (Chr CHR ''.'') label))))"

definition validEmail :: "string \<Rightarrow> bool" where
  "validEmail v = test email_regex v"

text \<open>\<^verbatim>\<open>/^\d+$/\<close>\<close>

definition validDigits :: "string \<Rightarrow> bool" where
  "validDigits v = test (Many1 (Class is_digit)) v"

text \<open>\<^verbatim>\<open>/^\s{0,2}[\+]?[\s0-9]{6,20}\s{0,2}$/\<close>\<close>

definition phone_regex :: regex where
  "phone_regex =
     Seq (Repeat 0 2 (Class is_space))
    (Seq (Opt (Chr CHR ''+''))
    (Seq (Repeat 6 20 (Class (\<lambda>c. is_space c \<or> is_digit c)))
         (Repeat 0 2 (Class is_space))))"

definition validPhone :: "string \<Rightarrow> bool" where
  "validPhone v = test phone_regex v"

text \<open>
  The URL pattern, under the flag \<^verbatim>\<open>i\<close> (so \<^verbatim>\<open>[a-z]\<close> also takes the upper case
  letters); the range from \<^verbatim>\<open>U+00A1\<close> to \<^verbatim>\<open>U+FFFF\<close> is every character from
  \<^verbatim>\<open>0xA1\<close> on.
\<close>

definition dot_digits :: regex where
  "dot_digits = Seq (Chr CHR ''.'') (Repeat 1 3 (Class is_digit))"

definition host_char :: "char \<Rightarrow> bool" where
  "host_char c = (is_lower c \<or> is_upper c \<or> 161 \<le> (of_char c :: nat) \<or> is_digit c)"

definition tld_char :: "char \<Rightarrow> bool" where
  "tld_char c = (is_lower c \<or> is_upper c \<or> 161 \<le> (of_char c :: nat))"

definition host_label :: regex where
  "host_label = Seq (Star (Seq (Class host_char) (Star (Chr CHR ''-'')))) (Many1 (Class host_char))"

definition non_space :: regex where
  "non_space = Class (\<lambda>c. \<not> is_space c)"

text \<open>\<^verbatim>\<open>(?:https?|ftp):\/\/\<close>\<close>

definition url_scheme :: regex where
  "url_scheme = Seq (Alt (Seq (LitI ''http'') (Opt (LitI ''s''))) (LitI ''ftp'')) (Lit ''://'')"

text \<open>\<^verbatim>\<open>(?:\S+(?::\S*)?@)?\<close>\<close>

definition url_userinfo :: regex where
  "url_userinfo =
     Opt (Seq (Many1 non_space) (Seq (Opt (Seq (Chr CHR '':'') (Star non_space))) (Chr CHR ''@'')))"

text \<open>The three look-aheads that exclude the private address ranges.\<close>

definition url_private_a :: regex where
  "url_private_a = Seq (Alt (Lit ''10'') (Lit ''127'')) (Repeat 3 3 dot_digits)"

definition url_private_b :: regex where
  "url_private_b = Seq (Alt (Lit ''169.254'') (Lit ''192.168'')) (Repeat 2 2 dot_digits)"

definition url_private_c :: regex where
  "url_private_c =
     Seq (Lit ''172.'')
    (Seq (Alt (Seq (Chr CHR ''1'') (Class (in_range 54 57)))
         (Alt (Seq (Chr CHR ''2'') (Class is_digit))
              (Seq (Chr CHR ''3'') (Class (in_range 48 49)))))
         (Repeat 2 2 dot_digits))"

text \<open>\<^verbatim>\<open>(?:[1-9]\d?|1\d\d|2[01]\d|22[0-3])\<close>\<close>

definition url_first_octet :: regex where
  "url_first_octet =
     Alt (Seq (Class (in_range 49 57)) (Opt (Class is_digit)))
    (Alt (Seq (Chr CHR ''1'') (Seq (Class is_digit) (Class is_digit)))
    (Alt (Seq (Chr CHR ''2'') (Seq (Class (in_range 48 49)) (Class is_digit)))
         (Seq (Lit ''22'') (Class (in_range 48 51)))))"

text \<open>\<^verbatim>\<open>(?:1?\d{1,2}|2[0-4]\d|25[0-5])\<close>\<close>

definition url_mid_octet :: regex where
  "url_mid_octet =
     Alt (Seq (Opt (Chr CHR ''1'')) (Repeat 1 2 (Class is_digit)))
    (Alt (Seq (Chr CHR ''2'') (Seq (Class (in_range 48 52)) (Class is_digit)))
         (Seq (Lit ''25'') (Class (in_range 48 53))))"

text \<open>\<^verbatim>\<open>(?:[1-9]\d?|1\d\d|2[0-4]\d|25[0-4])\<close>\<close>

definition url_last_octet :: regex where
  "url_last_octet =
     Alt (Seq (Class (in_range 49 57)) (Opt (Class is_digit)))
    (Alt (Seq (Chr CHR ''1'') (Seq (Class is_digit) (Class is_digit)))
    (Alt (Seq (Chr CHR ''2'') (Seq (Class (in_range 48 52)) (Class is_digit)))
         (Seq (Lit ''25'') (Class (in_range 48 52)))))"

definition url_address :: regex where
  "url_address =
     Seq (NotAhead url_private_a)
    (Seq (NotAhead url_private_b)
    (Seq (NotAhead url_private_c)
    (Seq url_first_octet
    (Seq (Repeat 2 2 (Seq (Chr CHR ''.'') url_mid_octet))
    (Seq (Chr CHR ''.'') url_last_octet)))))"

text \<open>The host name: labels, then a top-level domain of two letters or more and an
  optional final dot.\<close>

definition url_hostname :: regex where
  "url_hostname =
     Seq host_label
    (Seq (Star (Seq (Chr CHR ''.'') host_label))
    (Seq (Chr CHR ''.'')
    (Seq (AtLeast 2 (Class tld_char))
         (Opt (Chr CHR ''.'')))))"

text \<open>\<^verbatim>\<open>(?::\d{2,5})?(?:[\/?#]\S*)?\<close>\<close>

definition url_port_path :: regex where
  "url_port_path =
     Seq (Opt (Seq (Chr CHR '':'') (Repeat 2 5 (Class is_digit))))
         (Opt (Seq (Class (\<lambda>c. c \<in> set ''/?#'')) (Star non_space)))"

definition url_regex :: regex where
  "url_regex =
     Seq url_scheme (Seq url_userinfo (Seq (Alt url_address url_hostname) url_port_path))"

definition validUrl :: "string \<Rightarrow> bool" where
  "validUrl v = test url_regex v"

text \<open>
  \<^verbatim>\<open>parseInt(s)\<close> without radix: leading white space, an optional sign, then
  hexadecimal digits after \<^verbatim>\<open>0x\<close> or decimal digits; \<^verbatim>\<open>NaN\<close> (\<open>None\<close>) when no
  digit follows. A number is an \<open>int option\<close> in what follows, \<open>None\<close> being
  \<^verbatim>\<open>NaN\<close>; the rounding of integers beyond \<^verbatim>\<open>2^53\<close> is not modelled.
\<close>

definition digit_value :: "char \<Rightarrow> int" where
  "digit_value c =
     (if is_digit c then int (of_char c) - 48
      else if in_range 97 102 c then int (of_char c) - 87
      else int (of_char c) - 55)"

definition is_hex_digit :: "char \<Rightarrow> bool" where
  "is_hex_digit c = (is_digit c \<or> in_range 97 102 c \<or> in_range 65 70 c)"

definition parseInt :: "string \<Rightarrow> int option" where
  "parseInt s =
     (let s1 = dropWhile is_space s;
          negative = (take 1 s1 = ''-'');
          s2 = (if take 1 s1 = ''-'' \<or> take 1 s1 = ''+'' then drop 1 s1 else s1);
          hex = (take 2 s2 = ''0x'' \<or> take 2 s2 = ''0X'');
          digits = (if hex then takeWhile is_hex_digit (drop 2 s2) else takeWhile is_digit s2);
          radix = (if hex then 16 else 10);
          magnitude = foldl (\<lambda>n c. radix * n + digit_value c) 0 digits
      in if digits = [] then None
         else Some (if negative then - magnitude else magnitude))"

text \<open>\<^verbatim>\<open>n.toString()\<close> for an integer.\<close>

fun show_nat :: "nat \<Rightarrow> string" where
  "show_nat n =
     (if n < 10 then [''0123456789'' ! n]
      else show_nat (n div 10) @ [''0123456789'' ! (n mod 10)])"

declare show_nat.simps [simp del]

definition toString :: "int \<Rightarrow> string" where
  "toString n = (if n < 0 then ''-'' @ show_nat (nat (- n)) else show_nat (nat n))"

text \<open>\<^verbatim>\<open>s.replace(pattern, replacement)\<close> with a string pattern: the first occurrence
  only. The replacements used by the validator are numerals, which hold no \<^verbatim>\<open>$\<close>
  sequence.\<close>

fun replace :: "string \<Rightarrow> string \<Rightarrow> string \<Rightarrow> string" where
  "replace [] pattern replacement = (if pattern = [] then replacement else [])"
| "replace (c # cs) pattern replacement =
     (if take (length pattern) (c # cs) = pattern
      then replacement @ drop (length pattern) (c # cs)
      else c # replace cs pattern replacement)"

section \<open>Elements, form, settings (types.ts)\<close>

text \<open>
  What the validator reads of an element: node name, \<^verbatim>\<open>id\<close>, \<^verbatim>\<open>name\<close>,
  \<^verbatim>\<open>type\<close>, \<^verbatim>\<open>value\<close>, the \<^verbatim>\<open>pattern\<close> property (\<open>None\<close> on an element that
  has none, as a \<^verbatim>\<open>select\<close> or a \<^verbatim>\<open>textarea\<close>), the attributes, \<^verbatim>\<open>checked\<close>, the
  number of files (\<open>None\<close> for a \<^verbatim>\<open>null\<close> file list) and, for a \<^verbatim>\<open>select\<close>, the
  \<^verbatim>\<open>selected\<close> flag of each option.
\<close>

record element =
  el_nodeName :: string
  el_id :: string
  el_name :: string
  el_type :: string
  el_value :: string
  el_pattern :: "string option"
  el_attributes :: "(string \<times> string) list"
  el_checked :: bool
  el_files :: "nat option"
  el_options :: "bool list"

definition getAttribute :: "element \<Rightarrow> string \<Rightarrow> string option" where
  "getAttribute e a = map_of (el_attributes e) a"

definition hasAttribute :: "element \<Rightarrow> string \<Rightarrow> bool" where
  "hasAttribute e a = (getAttribute e a \<noteq> None)"

text \<open>The test \<^verbatim>\<open>if (field.getAttribute(a))\<close>: present and not empty.\<close>

definition attribute_set :: "element \<Rightarrow> string \<Rightarrow> bool" where
  "attribute_set e a = (case getAttribute e a of None \<Rightarrow> False | Some s \<Rightarrow> s \<noteq> [])"

text \<open>
  An element of the page as the error display sees it: tag, \<^verbatim>\<open>id\<close>, class, text and
  the \<^verbatim>\<open>display\<close> style. The page is the list of its elements in document order.
\<close>

record node =
  n_tag :: string
  n_id :: string
  n_class :: string
  n_text :: string
  n_display :: string

text \<open>
  The host: \<^verbatim>\<open>Date.parse\<close>, whose result is a time value in milliseconds or
  \<^verbatim>\<open>NaN\<close> (\<open>None\<close>); the regular expression engine applied to a pattern given at
  run time, \<^verbatim>\<open>new RegExp(pattern).test(value)\<close>, which raises a \<^verbatim>\<open>SyntaxError\<close> on a
  malformed pattern; the selector engine behind \<^verbatim>\<open>document.querySelector\<close>, which raises
  a \<^verbatim>\<open>SyntaxError\<close> on a selector that does not parse and otherwise gives the position of
  the first element of the page that matches, if any; \<^verbatim>\<open>document.createElement\<close>, which
  raises an \<^verbatim>\<open>InvalidCharacterError\<close> on a name that is no element name; and
  \<^verbatim>\<open>field.insertAdjacentElement('afterend', item)\<close>, the page with the item placed after
  the field (the page as it was for a field without a parent).
\<close>

record host =
  Date_parse :: "string \<Rightarrow> int option"
  RegExp_test :: "string \<Rightarrow> string \<Rightarrow> error + bool"
  Selector_parse :: "string \<Rightarrow> error + (node list \<Rightarrow> nat option)"
  createElement :: "string \<Rightarrow> error + node"
  insertAdjacentElement :: "element \<Rightarrow> node \<Rightarrow> node list \<Rightarrow> node list"

text \<open>\<^verbatim>\<open>validRegExp(pattern, value)\<close>. The pattern is \<open>None\<close> where the element has no
  \<^verbatim>\<open>pattern\<close> property (\<^verbatim>\<open>new RegExp(undefined)\<close> matches every string).\<close>

definition validRegExp :: "host \<Rightarrow> string option \<Rightarrow> string \<Rightarrow> error + bool" where
  "validRegExp H pattern v =
     (case pattern of None \<Rightarrow> Inr True | Some p \<Rightarrow> RegExp_test H p v)"

text \<open>
  \<^verbatim>\<open>validDate(field)\<close>. The test \<^verbatim>\<open>if (value)\<close> fails on \<^verbatim>\<open>NaN\<close> and on the
  time value \<^verbatim>\<open>0\<close>; a comparison with \<^verbatim>\<open>NaN\<close> is false.
\<close>

definition validDate :: "host \<Rightarrow> element \<Rightarrow> bool" where
  "validDate H field =
     (case Date_parse H (el_value field) of
        None \<Rightarrow> False
      | Some v \<Rightarrow>
          if v = 0 then False
          else if hasAttribute field ''min'' \<and>
                  (case getAttribute field ''min'' of
                     None \<Rightarrow> False
                   | Some attrMin \<Rightarrow> attrMin \<noteq> [] \<and>
                       (case Date_parse H attrMin of None \<Rightarrow> False | Some minValue \<Rightarrow> v < minValue))
          then False
          else if hasAttribute field ''max'' \<and>
                  (case getAttribute field ''max'' of
                     None \<Rightarrow> False
                   | Some attrMax \<Rightarrow> attrMax \<noteq> [] \<and>
                       (case Date_parse H attrMax of None \<Rightarrow> False | Some maxValue \<Rightarrow> v > maxValue))
          then False
          else True)"

text \<open>
  The bound form: its elements in document order and its \<^verbatim>\<open>querySelector\<close>, which
  gives the first element matching a selector, \<^verbatim>\<open>null\<close> (\<open>None\<close>) when none matches,
  and raises a \<^verbatim>\<open>SyntaxError\<close> on a malformed selector. The selectors that the
  validator builds from a field name select by equality of the name.
\<close>

record form =
  elements :: "element list"
  querySelector :: "string \<Rightarrow> error + element option"

text \<open>A declared rule. The method is a predicate (a function), a name, or absent; a
  predicate may raise.\<close>

datatype rule_method =
    Predicate "string \<Rightarrow> element \<Rightarrow> error + bool"
  | Named string
  | NoMethod

record FormRuleValidation =
  r_method :: rule_method
  r_field :: "string option"
  r_min :: "int option"
  r_max :: "int option"
  r_errorMessage :: "string option"

record FormField =
  ff_name :: "string option"
  ff_rules :: "FormRuleValidation list option"

record FormMessages =
  m_required :: string
  m_remote :: string
  m_email :: string
  m_url :: string
  m_date :: string
  m_number :: string
  m_phone :: string
  m_file :: string
  m_equalTo :: string
  m_maxlength :: string
  m_minlength :: string
  m_rangelength :: string
  m_max :: string
  m_min :: string
  m_range :: string
  m_regExp :: string

text \<open>
  The document: the page, and a history of the fields \<^verbatim>\<open>validateField\<close> has returned
  on (not a part of the page: it records the calls).
\<close>

record document =
  nodes :: "node list"
  visited :: "element list"

text \<open>The settings \<^verbatim>\<open>validateField\<close> reads. \<^verbatim>\<open>errorPlacement\<close>, when it is a function,
  receives the field and the new error node and acts on the page; it may raise.\<close>

record FormSettings =
  s_fields :: "FormField list option"
  s_errorPlacement :: "(element \<Rightarrow> node \<Rightarrow> node list \<Rightarrow> error + node list) option"
  s_errorElement :: "string option"
  s_errorClass :: "string option"
  s_errorFieldClass :: "string option"

record validator =
  v_form :: "form option"
  v_fields :: "element list option"
  v_settings :: "FormSettings option"
  v_messages :: FormMessages

definition messages :: FormMessages where
  "messages = \<lparr>
     m_required = ''This field is required.'',
     m_remote = ''Please fix this field.'',
     m_email = ''Please enter a valid email address.'',
     m_url = ''Please enter a valid URL.'',
     m_date = ''Please enter a valid date.'',
     m_number = ''Please enter a valid number.'',
     m_phone = ''Please enter a valid phone.'',
     m_file = ''Please select a file.'',
     m_equalTo = ''Please enter the same value again.'',
     m_maxlength = ''Please enter no more than {0} characters.'',
     m_minlength = ''Please enter at least {0} characters.'',
     m_rangelength = ''Please enter a value between {0} and {1} characters long'',
     m_max = ''Please enter a value than {0}.'',
     m_min = ''Please enter a value at least {0}.'',
     m_range = ''Please enter a value between {0} and {1}'',
     m_regExp = ''Please enter a value matching the requested format.''\<rparr>"

section \<open>Length measurement and the length rules\<close>

fun contains :: "string \<Rightarrow> string \<Rightarrow> bool" where
  "contains part [] = (part = [])"
| "contains part (c # cs) = (take (length part) (c # cs) = part \<or> contains part cs)"

text \<open>\<^verbatim>\<open>(/radio|checkbox/i).test(element.type)\<close>\<close>

definition checkable :: "element \<Rightarrow> bool" where
  "checkable e =
     (contains ''radio'' (toLowerCase (el_type e)) \<or> contains ''checkbox'' (toLowerCase (el_type e)))"

definition findByName :: "validator \<Rightarrow> string \<Rightarrow> element list" where
  "findByName V name =
     (case v_form V of
        None \<Rightarrow> []
      | Some fm \<Rightarrow> filter (\<lambda>e. el_name e = name) (elements fm))"

definition getLength :: "validator \<Rightarrow> string \<Rightarrow> element \<Rightarrow> int option" where
  "getLength V v e =
     (if toLowerCase (el_nodeName e) = ''select'' then
        Some (int (length (filter (\<lambda>selected. selected) (el_options e))))
      else if toLowerCase (el_nodeName e) = ''input'' then
        (if checkable e then
           Some (int (length (filter el_checked (findByName V (el_name e)))))
         else if el_type e = ''number'' then parseInt v
         else if el_type e = ''file'' then
           (case el_files e of Some n \<Rightarrow> Some (int n) | None \<Rightarrow> Some 0)
         else Some (int (length v)))
      else Some (int (length v)))"

definition minlength :: "validator \<Rightarrow> string \<Rightarrow> element \<Rightarrow> int option \<Rightarrow> bool" where
  "minlength V v e param =
     (case (getLength V v e, param) of (Some l, Some p) \<Rightarrow> l \<ge> p | _ \<Rightarrow> False)"

definition maxlength :: "validator \<Rightarrow> string \<Rightarrow> element \<Rightarrow> int option \<Rightarrow> bool" where
  "maxlength V v e param =
     (case (getLength V v e, param) of (Some l, Some p) \<Rightarrow> l \<le> p | _ \<Rightarrow> False)"

definition rangelength ::
  "validator \<Rightarrow> string \<Rightarrow> element \<Rightarrow> int option \<times> int option \<Rightarrow> bool" where
  "rangelength V v e param =
     (case (getLength V v e, param) of
        (Some l, Some p0, Some p1) \<Rightarrow> l \<ge> p0 \<and> l \<le> p1
      | _ \<Rightarrow> False)"

text \<open>\<^verbatim>\<open>validateCheckboxRadio(name)\<close>: some \<^verbatim>\<open>input\<close> of the form with that name is
  checked.\<close>

definition validateCheckboxRadio :: "validator \<Rightarrow> string \<Rightarrow> bool" where
  "validateCheckboxRadio V name =
     (case v_form V of
        None \<Rightarrow> False
      | Some fm \<Rightarrow>
          list_ex el_checked
            (filter (\<lambda>e. toLowerCase (el_nodeName e) = ''input'' \<and> el_name e = name)
               (elements fm)))"

section \<open>validateField: the verdict\<close>

text \<open>
  The verdict of one evaluation: \<^verbatim>\<open>isValid\<close>, \<^verbatim>\<open>errorMessage\<close>, and the list of the
  checks run so far, one entry at each place where the source calls a check (a record
  of the calls, not a variable of the source).
\<close>

datatype call =
    CallNotEmpty
  | CallValidateCheckboxRadio
  | CallValidEmail
  | CallValidPhone
  | CallValidUrl
  | CallFiles
  | CallValidDate
  | CallMinlength
  | CallMaxlength
  | CallRangelength
  | CallValidRegExp
  | CallPredicate
  | CallEqualTo

record verdict =
  isValid :: bool
  errorMessage :: string
  calls :: "call list"

datatype step_name =
    StepInit
  | StepRequired
  | StepType
  | StepMinLength
  | StepMaxLength
  | StepRangeLength
  | StepPattern
  | StepRule

type_synonym step = "verdict \<Rightarrow> error + verdict"

text \<open>\<^verbatim>\<open>field.dataset.errorMessage ? field.dataset.errorMessage : ''\<close>\<close>

definition customErrorMessage :: "element \<Rightarrow> string" where
  "customErrorMessage field =
     (case getAttribute field ''data-error-message'' of None \<Rightarrow> [] | Some m \<Rightarrow> m)"

definition initial :: "element \<Rightarrow> verdict" where
  "initial field = \<lparr>isValid = True, errorMessage = customErrorMessage field, calls = []\<rparr>"

text \<open>
  The statement pair found after every check:
  \<^verbatim>\<open>isValid = ok; if (!isValid && !customErrorMessage) errorMessage = message;\<close>
\<close>

definition assign :: "element \<Rightarrow> call \<Rightarrow> bool \<Rightarrow> string \<Rightarrow> verdict \<Rightarrow> verdict" where
  "assign field c ok message st =
     \<lparr>isValid = ok,
      errorMessage = (if \<not> ok \<and> customErrorMessage field = [] then message else errorMessage st),
      calls = calls st @ [c]\<rparr>"

definition required_step :: "validator \<Rightarrow> element \<Rightarrow> verdict \<Rightarrow> verdict" where
  "required_step V field st =
     (if hasAttribute field ''required'' then
        (if el_type field = ''checkbox'' \<or> el_type field = ''radio'' then
           assign field CallValidateCheckboxRadio (validateCheckboxRadio V (el_name field))
             (m_required (v_messages V)) st
         else
           assign field CallNotEmpty (notEmpty (el_value field)) (m_required (v_messages V)) st)
      else st)"

text \<open>
  The bounds of the default branch:
  \<^verbatim>\<open>getAttribute('minlength') ? getAttribute('minlength') : getAttribute('min')\<close>, and the
  test \<^verbatim>\<open>minlength && validDigits(minlength)\<close>.
\<close>

definition minlength_attribute :: "element \<Rightarrow> string option" where
  "minlength_attribute field =
     (if attribute_set field ''minlength'' then getAttribute field ''minlength''
      else getAttribute field ''min'')"

definition maxlength_attribute :: "element \<Rightarrow> string option" where
  "maxlength_attribute field =
     (if attribute_set field ''maxlength'' then getAttribute field ''maxlength''
      else getAttribute field ''max'')"

definition usable :: "string option \<Rightarrow> bool" where
  "usable bound = (case bound of None \<Rightarrow> False | Some s \<Rightarrow> s \<noteq> [] \<and> validDigits s)"

definition min_step :: "validator \<Rightarrow> element \<Rightarrow> verdict \<Rightarrow> verdict" where
  "min_step V field st =
     (case minlength_attribute field of
        None \<Rightarrow> st
      | Some mn \<Rightarrow>
          if usable (Some mn) then
            assign field CallMinlength (minlength V (el_value field) field (parseInt mn))
              (if attribute_set field ''min''
               then replace (m_min (v_messages V)) ''{0}'' mn
               else replace (m_minlength (v_messages V)) ''{0}'' mn) st
          else st)"

definition max_step :: "validator \<Rightarrow> element \<Rightarrow> verdict \<Rightarrow> verdict" where
  "max_step V field st =
     (case maxlength_attribute field of
        None \<Rightarrow> st
      | Some mx \<Rightarrow>
          if usable (Some mx) then
            assign field CallMaxlength (maxlength V (el_value field) field (parseInt mx))
              (if attribute_set field ''max''
               then replace (m_max (v_messages V)) ''{0}'' mx
               else replace (m_maxlength (v_messages V)) ''{0}'' mx) st
          else st)"

definition range_step :: "validator \<Rightarrow> element \<Rightarrow> verdict \<Rightarrow> verdict" where
  "range_step V field st =
     (case (minlength_attribute field, maxlength_attribute field) of
        (Some mn, Some mx) \<Rightarrow>
          if usable (Some mn) \<and> usable (Some mx) then
            assign field CallRangelength
              (rangelength V (el_value field) field (parseInt mn, parseInt mx))
              (if attribute_set field ''max'' \<and> attribute_set field ''min''
               then replace (replace (m_range (v_messages V)) ''{0}'' mn) ''{1}'' mx
               else replace (replace (m_rangelength (v_messages V)) ''{0}'' mn) ''{1}'' mx) st
          else st
      | _ \<Rightarrow> st)"

definition pure :: "(verdict \<Rightarrow> verdict) \<Rightarrow> step" where
  "pure s = (\<lambda>st. Inr (s st))"

text \<open>The \<^verbatim>\<open>switch (fieldType)\<close>: one check for the five special types, the three
  length checks in the default branch.\<close>

definition type_steps :: "host \<Rightarrow> validator \<Rightarrow> element \<Rightarrow> (step_name \<times> step) list" where
  "type_steps H V field =
     (if el_type field = ''email'' then
        [(StepType, pure (assign field CallValidEmail (validEmail (el_value field))
                            (m_email (v_messages V))))]
      else if el_type field = ''tel'' then
        [(StepType, pure (assign field CallValidPhone (validPhone (el_value field))
                            (m_phone (v_messages V))))]
      else if el_type field = ''url'' then
        [(StepType, pure (assign field CallValidUrl (validUrl (el_value field))
                            (m_url (v_messages V))))]
      else if el_type field = ''file'' then
        [(StepType, pure (assign field CallFiles
                            (case el_files field of None \<Rightarrow> False | Some n \<Rightarrow> n > 0)
                            (m_file (v_messages V))))]
      else if el_type field = ''date'' then
        [(StepType, pure (assign field CallValidDate (validDate H field)
                            (m_date (v_messages V))))]
      else
        [(StepMinLength, pure (min_step V field)),
         (StepMaxLength, pure (max_step V field)),
         (StepRangeLength, pure (range_step V field))])"

definition pattern_step :: "host \<Rightarrow> validator \<Rightarrow> element \<Rightarrow> step" where
  "pattern_step H V field st =
     (if isValid st \<and> el_value field \<noteq> [] \<and> el_pattern field \<noteq> Some [] then
        (case validRegExp H (el_pattern field) (el_value field) of
           Inl e \<Rightarrow> Inl e
         | Inr ok \<Rightarrow> Inr (assign field CallValidRegExp ok (m_regExp (v_messages V)) st))
      else Inr st)"

text \<open>\<^verbatim>\<open>rule.errorMessage ? rule.errorMessage : fallback\<close>\<close>

definition rule_message :: "FormRuleValidation \<Rightarrow> string \<Rightarrow> string" where
  "rule_message rule fallback =
     (case r_errorMessage rule of
        None \<Rightarrow> fallback
      | Some m \<Rightarrow> if m \<noteq> [] then m else fallback)"

text \<open>A rule whose method is a function: \<^verbatim>\<open>isValid = rule.method(fieldValue, field)\<close>.\<close>

definition predicate_rule ::
  "validator \<Rightarrow> element \<Rightarrow> FormRuleValidation \<Rightarrow> (string \<Rightarrow> element \<Rightarrow> error + bool) \<Rightarrow> step" where
  "predicate_rule V field rule method st =
     (case method (el_value field) field of
        Inl e \<Rightarrow> Inl e
      | Inr ok \<Rightarrow>
          Inr (assign field CallPredicate ok (rule_message rule (m_remote (v_messages V))) st))"

text \<open>\<^verbatim>\<open>case 'equalTo'\<close>: nothing happens without a selector, without a form, or
  when the selector matches no element.\<close>

definition equalTo_rule :: "validator \<Rightarrow> element \<Rightarrow> FormRuleValidation \<Rightarrow> step" where
  "equalTo_rule V field rule st =
     (case r_field rule of
        None \<Rightarrow> Inr st
      | Some selector \<Rightarrow>
          if selector = [] then Inr st
          else
            (case v_form V of
               None \<Rightarrow> Inr st
             | Some fm \<Rightarrow>
                 (case querySelector fm selector of
                    Inl e \<Rightarrow> Inl e
                  | Inr None \<Rightarrow> Inr st
                  | Inr (Some equalToField) \<Rightarrow>
                      Inr (assign field CallEqualTo
                             (el_value field = el_value equalToField)
                             (rule_message rule (m_equalTo (v_messages V))) st))))"

text \<open>\<^verbatim>\<open>case 'minlength'\<close>, \<^verbatim>\<open>case 'maxlength'\<close>, \<^verbatim>\<open>case 'rangelength'\<close>: the tests
  \<^verbatim>\<open>if (min)\<close> and \<^verbatim>\<open>if (max)\<close> fail on a missing bound and on \<^verbatim>\<open>0\<close>.\<close>

definition minlength_rule :: "validator \<Rightarrow> element \<Rightarrow> FormRuleValidation \<Rightarrow> step" where
  "minlength_rule V field rule st =
     (case r_min rule of
        None \<Rightarrow> Inr st
      | Some mn \<Rightarrow>
          if mn = 0 then Inr st
          else
            Inr (assign field CallMinlength
                   (minlength V (el_value field) field (Some mn))
                   (replace
                      (if attribute_set field ''min''
                       then rule_message rule (m_min (v_messages V))
                       else rule_message rule (m_minlength (v_messages V)))
                      ''{0}'' (toString mn)) st))"

definition maxlength_rule :: "validator \<Rightarrow> element \<Rightarrow> FormRuleValidation \<Rightarrow> step" where
  "maxlength_rule V field rule st =
     (case r_max rule of
        None \<Rightarrow> Inr st
      | Some mx \<Rightarrow>
          if mx = 0 then Inr st
          else
            Inr (assign field CallMaxlength
                   (maxlength V (el_value field) field (Some mx))
                   (replace
                      (if attribute_set field ''max''
                       then rule_message rule (m_max (v_messages V))
                       else rule_message rule (m_maxlength (v_messages V)))
                      ''{0}'' (toString mx)) st))"

definition rangelength_rule :: "validator \<Rightarrow> element \<Rightarrow> FormRuleValidation \<Rightarrow> step" where
  "rangelength_rule V field rule st =
     (case (r_min rule, r_max rule) of
        (Some mn, Some mx) \<Rightarrow>
          if mn = 0 \<or> mx = 0 then Inr st
          else
            Inr (assign field CallRangelength
                   (rangelength V (el_value field) field (Some mn, Some mx))
                   (replace
                      (replace
                         (if attribute_set field ''max'' \<and> attribute_set field ''min''
                          then rule_message rule (m_range (v_messages V))
                          else rule_message rule (m_rangelength (v_messages V)))
                         ''{0}'' (toString mn))
                      ''{1}'' (toString mx)) st)
      | _ \<Rightarrow> Inr st)"

text \<open>The body of \<^verbatim>\<open>fieldSetting.rules.forEach\<close> for one rule.\<close>

definition rule_step :: "host \<Rightarrow> validator \<Rightarrow> element \<Rightarrow> FormRuleValidation \<Rightarrow> step" where
  "rule_step H V field rule st =
     (if isValid st then
        (case r_method rule of
           Predicate method \<Rightarrow> predicate_rule V field rule method st
         | NoMethod \<Rightarrow> Inr st
         | Named m \<Rightarrow>
             if m = ''equalTo'' then equalTo_rule V field rule st
             else if m = ''minlength'' then minlength_rule V field rule st
             else if m = ''maxlength'' then maxlength_rule V field rule st
             else if m = ''rangelength'' then rangelength_rule V field rule st
             else Inr st)
      else Inr st)"

text \<open>
  The rules reached by the two nested \<^verbatim>\<open>forEach\<close>: those of every entry of
  \<^verbatim>\<open>settings.fields\<close> whose name is the field's, in order.
\<close>

definition declared_rules :: "validator \<Rightarrow> element \<Rightarrow> FormRuleValidation list" where
  "declared_rules V field =
     (case v_settings V of
        None \<Rightarrow> []
      | Some s \<Rightarrow>
          (case s_fields s of
             None \<Rightarrow> []
           | Some fieldSettings \<Rightarrow>
               concat (map (\<lambda>fieldSetting.
                         if ff_name fieldSetting = Some (el_name field) then
                           (case ff_rules fieldSetting of None \<Rightarrow> [] | Some rules \<Rightarrow> rules)
                         else [])
                       fieldSettings)))"

text \<open>
  What runs once the test \<^verbatim>\<open>isValid && fieldValue && fieldValue !== ''\<close> has passed:
  the type switch, the pattern check, the declared rules. The last two test
  \<^verbatim>\<open>isValid\<close> again on entry; the three length checks do not.
\<close>

definition block_steps :: "host \<Rightarrow> validator \<Rightarrow> element \<Rightarrow> (step_name \<times> step) list" where
  "block_steps H V field =
     type_steps H V field @
     [(StepPattern, pattern_step H V field)] @
     map (\<lambda>rule. (StepRule, rule_step H V field rule)) (declared_rules V field)"

text \<open>Running steps in sequence, keeping the verdict after each one; an exception ends
  the run.\<close>

fun run :: "(step_name \<times> step) list \<Rightarrow> verdict \<Rightarrow> error + (step_name \<times> verdict) list" where
  "run [] st = Inr []"
| "run ((n, s) # steps) st =
     (case s st of
        Inl e \<Rightarrow> Inl e
      | Inr st' \<Rightarrow>
          (case run steps st' of
             Inl e \<Rightarrow> Inl e
           | Inr tr \<Rightarrow> Inr ((n, st') # tr)))"

definition validateField_trace ::
  "host \<Rightarrow> validator \<Rightarrow> element \<Rightarrow> error + (step_name \<times> verdict) list" where
  "validateField_trace H V field =
     (let s0 = initial field;
          s1 = required_step V field s0
      in if isValid s1 \<and> el_value field \<noteq> [] then
           (case run (block_steps H V field) s1 of
              Inl e \<Rightarrow> Inl e
            | Inr tr \<Rightarrow> Inr ((StepInit, s0) # (StepRequired, s1) # tr))
         else Inr [(StepInit, s0), (StepRequired, s1)])"

text \<open>The verdict \<^verbatim>\<open>validateField\<close> reaches before it turns to the error node. (What
  the query of the required check raises is raised by \<open>validateField\<close>, below.)\<close>

definition evaluate :: "host \<Rightarrow> validator \<Rightarrow> element \<Rightarrow> error + verdict" where
  "evaluate H V field =
     (case validateField_trace H V field of
        Inl e \<Rightarrow> Inl e
      | Inr tr \<Rightarrow> Inr (snd (last tr)))"

section \<open>validateField: the error node; validateForm\<close>

text \<open>
  \<^verbatim>\<open>classList.add(token)\<close> and \<^verbatim>\<open>classList.remove(token)\<close> raise a \<^verbatim>\<open>SyntaxError\<close> on
  the empty token and an \<^verbatim>\<open>InvalidCharacterError\<close> on a token with ASCII white space.
  The class they set on the field is read nowhere in the validator and is left out;
  what they raise is kept.
\<close>

definition ascii_whitespace :: "char \<Rightarrow> bool" where
  "ascii_whitespace c = ((of_char c :: nat) \<in> {9, 10, 12, 13, 32})"

definition classList_token :: "string \<Rightarrow> error + unit" where
  "classList_token token =
     (if token = [] then Inl SyntaxError
      else if list_ex ascii_whitespace token then Inl InvalidCharacterError
      else Inr ())"

text \<open>\<^verbatim>\<open>if (this.settings && this.settings.errorFieldClass)\<close>, then the class is added
  to or removed from the field.\<close>

definition errorFieldClass :: "validator \<Rightarrow> error + unit" where
  "errorFieldClass V =
     (case v_settings V of
        None \<Rightarrow> Inr ()
      | Some s \<Rightarrow>
          (case s_errorFieldClass s of
             None \<Rightarrow> Inr ()
           | Some c \<Rightarrow> if c = [] then Inr () else classList_token c))"

text \<open>
  What \<^verbatim>\<open>validateCheckboxRadio\<close> raises, for a required checkbox or radio button: the
  selector \<^verbatim>\<open>'input[name="' + name + '"]'\<close> is built from the name as it is, and the
  form's selector engine raises on one that does not parse; when an element is checked,
  the class toggle runs on every element found.
\<close>

definition required_query :: "validator \<Rightarrow> element \<Rightarrow> error + unit" where
  "required_query V field =
     (if hasAttribute field ''required'' \<and> (el_type field = ''checkbox'' \<or> el_type field = ''radio'')
      then
        (case v_form V of
           None \<Rightarrow> Inr ()
         | Some fm \<Rightarrow>
             (case querySelector fm
                     (''input[name='' @ [CHR 0x22] @ el_name field @ [CHR 0x22] @ '']'') of
                Inl e \<Rightarrow> Inl e
              | Inr _ \<Rightarrow>
                  if validateCheckboxRadio V (el_name field) then errorFieldClass V else Inr ()))
      else Inr ())"

definition errorHelpId :: "element \<Rightarrow> string" where
  "errorHelpId field =
     (let fieldId = (if el_type field = ''checkbox'' \<or> el_type field = ''radio''
                     then el_name field else el_id field)
      in (if fieldId \<noteq> [] then fieldId else el_name field) @ ''-error'')"

text \<open>\<^verbatim>\<open>document.querySelector(selector)\<close> on a page (a position that is not one of
  the page counts as no match).\<close>

definition document_querySelector :: "host \<Rightarrow> string \<Rightarrow> node list \<Rightarrow> error + nat option" where
  "document_querySelector H selector page =
     (case Selector_parse H selector of
        Inl e \<Rightarrow> Inl e
      | Inr first_match \<Rightarrow>
          Inr (case first_match page of
                 None \<Rightarrow> None
               | Some i \<Rightarrow> if i < length page then Some i else None))"

text \<open>The new error node: \<^verbatim>\<open>createElement\<close>, then class and \<^verbatim>\<open>id\<close>.\<close>

definition errorHelpItem :: "host \<Rightarrow> FormSettings \<Rightarrow> element \<Rightarrow> error + node" where
  "errorHelpItem H s field =
     (case createElement H
             (case s_errorElement s of None \<Rightarrow> ''p'' | Some t \<Rightarrow> if t \<noteq> [] then t else ''p'') of
        Inl e \<Rightarrow> Inl e
      | Inr item \<Rightarrow>
          Inr (item\<lparr>n_class := (case s_errorClass s of
                                   None \<Rightarrow> ''error''
                                 | Some c \<Rightarrow> if c \<noteq> [] then c else ''error''),
                    n_id := errorHelpId field\<rparr>))"

text \<open>The node is handed to \<^verbatim>\<open>errorPlacement\<close> when that is a function and placed after
  the field otherwise.\<close>

definition placeErrorHelp :: "host \<Rightarrow> FormSettings \<Rightarrow> element \<Rightarrow> node list \<Rightarrow> error + node list" where
  "placeErrorHelp H s field page =
     (case errorHelpItem H s field of
        Inl e \<Rightarrow> Inl e
      | Inr item \<Rightarrow>
          (case s_errorPlacement s of
             Some place \<Rightarrow> place field item page
           | None \<Rightarrow> Inr (insertAdjacentElement H field item page)))"

text \<open>
  The error node is looked up with the selector \<^verbatim>\<open>'#' + errorHelpId\<close>, built from the
  \<^verbatim>\<open>id\<close> or name as it is; when nothing is found and there are settings, a node is
  made and placed, and the page is queried again with the same selector.
\<close>

definition errorHelp ::
  "host \<Rightarrow> validator \<Rightarrow> element \<Rightarrow> node list \<Rightarrow> error + (node list \<times> nat option)" where
  "errorHelp H V field page =
     (case document_querySelector H (''#'' @ errorHelpId field) page of
        Inl e \<Rightarrow> Inl e
      | Inr found \<Rightarrow>
          (case (found, v_settings V) of
             (None, Some s) \<Rightarrow>
               (case placeErrorHelp H s field page of
                  Inl e \<Rightarrow> Inl e
                | Inr page' \<Rightarrow>
                    (case document_querySelector H (''#'' @ errorHelpId field) page' of
                       Inl e \<Rightarrow> Inl e
                     | Inr found' \<Rightarrow> Inr (page', found')))
           | _ \<Rightarrow> Inr (page, found)))"

text \<open>The node found is hidden on a valid verdict and shows the message on an invalid
  one; then the class of the field is toggled.\<close>

definition display :: "host \<Rightarrow> validator \<Rightarrow> element \<Rightarrow> verdict \<Rightarrow> document \<Rightarrow> error + document" where
  "display H V field st doc =
     (case errorHelp H V field (nodes doc) of
        Inl e \<Rightarrow> Inl e
      | Inr (page, None) \<Rightarrow> Inr (doc\<lparr>nodes := page\<rparr>)
      | Inr (page, Some i) \<Rightarrow>
          (case errorFieldClass V of
             Inl e \<Rightarrow> Inl e
           | Inr _ \<Rightarrow>
               Inr (doc\<lparr>nodes := page[i :=
                      (if isValid st then (page ! i)\<lparr>n_display := ''none''\<rparr>
                       else (page ! i)\<lparr>n_text := errorMessage st, n_display := []\<rparr>)]\<rparr>)))"

text \<open>
  \<^verbatim>\<open>validateField(field)\<close>: what the required check raises, the verdict, the error
  node; the call is entered in the history when it returns.
\<close>

definition validateField ::
  "host \<Rightarrow> validator \<Rightarrow> element \<Rightarrow> document \<Rightarrow> error + (bool \<times> document)" where
  "validateField H V field doc =
     (case required_query V field of
        Inl e \<Rightarrow> Inl e
      | Inr _ \<Rightarrow>
          (case evaluate H V field of
             Inl e \<Rightarrow> Inl e
           | Inr st \<Rightarrow>
               (case display H V field st doc of
                  Inl e \<Rightarrow> Inl e
                | Inr doc' \<Rightarrow> Inr (isValid st, doc'\<lparr>visited := visited doc @ [field]\<rparr>))))"

text \<open>The \<^verbatim>\<open>forEach\<close> of \<^verbatim>\<open>validateForm\<close>, with its local \<^verbatim>\<open>isValid\<close>.\<close>

fun forEach_field ::
  "host \<Rightarrow> validator \<Rightarrow> element list \<Rightarrow> bool \<Rightarrow> document \<Rightarrow> error + (bool \<times> document)" where
  "forEach_field H V [] ok doc = Inr (ok, doc)"
| "forEach_field H V (field # rest) ok doc =
     (case validateField H V field doc of
        Inl e \<Rightarrow> Inl e
      | Inr (isValidField, doc') \<Rightarrow>
          forEach_field H V rest (if \<not> isValidField then False else ok) doc')"

definition validateForm :: "host \<Rightarrow> validator \<Rightarrow> document \<Rightarrow> error + (bool \<times> document)" where
  "validateForm H V doc =
     (case v_fields V of
        None \<Rightarrow> Inr (True, doc)
      | Some fs \<Rightarrow> forEach_field H V fs True doc)"

section \<open>What a regular expression describes\<close>

text \<open>
  The words a regular expression matches from start to end, stated without reference to
  the matcher. A look-ahead consumes nothing, so all this says of it is that it matches
  the empty word: enough to bound from above what the matcher accepts.
\<close>

primrec lang :: "regex \<Rightarrow> string \<Rightarrow> bool" where
  "lang Eps w = (w = [])"
| "lang (Class P) w = (\<exists>c. P c \<and> w = [c])"
| "lang (Seq r1 r2) w = (\<exists>u v. lang r1 u \<and> lang r2 v \<and> w = u @ v)"
| "lang (Alt r1 r2) w = (lang r1 w \<or> lang r2 w)"
| "lang (Star r) w = (\<exists>us. list_all (lang r) us \<and> w = concat us)"
| "lang (Repeat lo hi r) w =
     (\<exists>us. list_all (lang r) us \<and> lo \<le> length us \<and> length us \<le> hi \<and> w = concat us)"
| "lang (NotAhead r) w = (w = [])"

text \<open>The expressions without look-ahead: on these the matcher and the description agree.\<close>

primrec no_lookahead :: "regex \<Rightarrow> bool" where
  "no_lookahead Eps = True"
| "no_lookahead (Class P) = True"
| "no_lookahead (Seq r1 r2) = (no_lookahead r1 \<and> no_lookahead r2)"
| "no_lookahead (Alt r1 r2) = (no_lookahead r1 \<and> no_lookahead r2)"
| "no_lookahead (Star r) = no_lookahead r"
| "no_lookahead (Repeat lo hi r) = no_lookahead r"
| "no_lookahead (NotAhead r) = False"

text \<open>A domain label: one to 63 letters, digits or hyphens, with no hyphen at either
  end; and labels joined by dots.\<close>

definition is_label :: "string \<Rightarrow> bool" where
  "is_label l =
     (l \<noteq> [] \<and> length l \<le> 63 \<and> list_all is_alnum_hyphen l \<and> is_alnum (hd l) \<and> is_alnum (last l))"

fun dotted :: "string list \<Rightarrow> string" where
  "dotted [] = []"
| "dotted [l] = l"
| "dotted (l # ls) = l @ ''.'' @ dotted ls"

text \<open>A step is inert when it leaves an invalid verdict as it finds it.\<close>

definition inert :: "step \<Rightarrow> bool" where
  "inert s = (\<forall>st. \<not> isValid st \<longrightarrow> s st = Inr st)"

text \<open>An \<^verbatim>\<open>equalTo\<close> rule whose selector matches no element of the bound form.\<close>

definition unresolved_equalTo :: "validator \<Rightarrow> FormRuleValidation \<Rightarrow> bool" where
  "unresolved_equalTo V rule =
     (r_method rule = Named ''equalTo'' \<and>
      (case (r_field rule, v_form V) of
         (Some selector, Some fm) \<Rightarrow> querySelector fm selector = Inr None
       | _ \<Rightarrow> False))"

text \<open>The validator with the declared rules that pass a test taken out of its
  configuration.\<close>

definition without_rules :: "(FormRuleValidation \<Rightarrow> bool) \<Rightarrow> validator \<Rightarrow> validator" where
  "without_rules P V =
     V\<lparr>v_settings :=
         map_option
           (\<lambda>s. s\<lparr>s_fields :=
                  map_option
                    (map (\<lambda>fieldSetting.
                       fieldSetting\<lparr>ff_rules :=
                         map_option (filter (\<lambda>rule. \<not> P rule)) (ff_rules fieldSetting)\<rparr>))
                    (s_fields s)\<rparr>)
           (v_settings V)\<rparr>"

text \<open>The types with a check of their own in the \<^verbatim>\<open>switch\<close>; every other type takes
  the default branch.\<close>

definition special_type :: "element \<Rightarrow> bool" where
  "special_type field = (el_type field \<in> {''email'', ''tel'', ''url'', ''file'', ''date''})"

text \<open>
  Two consecutive entries of a trace: a step reached with an invalid verdict, other
  than the maximum-length and the range check, leaves the verdict as it was.
\<close>

definition undisturbed :: "step_name \<times> verdict \<Rightarrow> step_name \<times> verdict \<Rightarrow> bool" where
  "undisturbed before after =
     (\<not> isValid (snd before) \<and> fst after \<noteq> StepMaxLength \<and> fst after \<noteq> StepRangeLength
      \<longrightarrow> snd after = snd before)"

definition frozen :: "step_name \<times> verdict \<Rightarrow> step_name \<times> verdict \<Rightarrow> bool" where
  "frozen before after = (\<not> isValid (snd before) \<longrightarrow> snd after = snd before)"

text \<open>The verdict at the end of a run that started from a given verdict.\<close>

definition final :: "verdict \<Rightarrow> error + (step_name \<times> verdict) list \<Rightarrow> error + verdict" where
  "final st r = (case r of Inl e \<Rightarrow> Inl e | Inr tr \<Rightarrow> Inr (if tr = [] then st else snd (last tr)))"

text \<open>The steps after the type switch.\<close>

definition tail_steps :: "host \<Rightarrow> validator \<Rightarrow> element \<Rightarrow> (step_name \<times> step) list" where
  "tail_steps H V field = (StepPattern, pattern_step H V field) #
     map (\<lambda>rule. (StepRule, rule_step H V field rule)) (declared_rules V field)"

section \<open>Fixtures for the examples\<close>

text \<open>The position of the first element of a list that passes a test.\<close>

fun first_index :: "('a \<Rightarrow> bool) \<Rightarrow> 'a list \<Rightarrow> nat option" where
  "first_index P [] = None"
| "first_index P (x # xs) = (if P x then Some 0 else map_option Suc (first_index P xs))"

text \<open>
  A host stub: it knows two dates and two patterns, the empty one (which matches every
  string) and \<^verbatim>\<open>^[0-9]+$\<close>; anything else is \<^verbatim>\<open>NaN\<close>, respectively a malformed
  pattern. Its selector engine knows the selectors \<^verbatim>\<open>#name\<close> where the name is made of
  letters, digits and hyphens and starts with a letter, and rejects every other selector
  (among them \<^verbatim>\<open>#tags[]-error\<close>, which no browser parses). It makes elements whose names
  are made of letters and digits, and its page takes a node placed after a field at its
  end.
\<close>

definition example_host :: host where
  "example_host =
     \<lparr>Date_parse = (\<lambda>s. if s = ''1970-01-01'' then Some 0
                         else if s = ''2000-01-01'' then Some 946684800000
                         else None),
      RegExp_test = (\<lambda>pattern v. if pattern = [] then Inr True
                                    else if pattern = ''^[0-9]+$'' then Inr (validDigits v)
                                    else Inl SyntaxError),
      Selector_parse = (\<lambda>selector.
         if take 1 selector = ''#'' \<and> drop 1 selector \<noteq> []
            \<and> list_all is_alnum_hyphen (drop 1 selector)
            \<and> (is_lower (selector ! 1) \<or> is_upper (selector ! 1))
         then Inr (first_index (\<lambda>n. n_id n = drop 1 selector))
         else Inl SyntaxError),
      createElement = (\<lambda>name.
         if name \<noteq> [] \<and> list_all is_alnum name
         then Inr \<lparr>n_tag = name, n_id = [], n_class = [], n_text = [], n_display = []\<rparr>
         else Inl InvalidCharacterError),
      insertAdjacentElement = (\<lambda>field item page. page @ [item])\<rparr>"

text \<open>An \<^verbatim>\<open>input\<close> of the given type, name, value and attributes.\<close>

definition input :: "string \<Rightarrow> string \<Rightarrow> string \<Rightarrow> (string \<times> string) list \<Rightarrow> element" where
  "input type name v attributes =
     \<lparr>el_nodeName = ''INPUT'', el_id = name, el_name = name, el_type = type, el_value = v,
      el_pattern = Some [], el_attributes = attributes, el_checked = False,
      el_files = None, el_options = []\<rparr>"

definition example_settings :: "FormField list \<Rightarrow> FormSettings" where
  "example_settings fieldSettings =
     \<lparr>s_fields = Some fieldSettings, s_errorPlacement = None,
      s_errorElement = Some ''p'', s_errorClass = Some ''error'', s_errorFieldClass = None\<rparr>"

text \<open>A form with a password field and its confirmation; its \<^verbatim>\<open>querySelector\<close> knows
  the two \<^verbatim>\<open>id\<close> selectors, rejects \<^verbatim>\<open>##\<close> and finds nothing otherwise.\<close>

definition example_form :: form where
  "example_form =
     \<lparr>elements = [input ''password'' ''password'' ''secret'' [],
                  input ''password'' ''confirm'' ''secret'' []],
      querySelector = (\<lambda>selector.
         if selector = ''#password'' then Inr (Some (input ''password'' ''password'' ''secret'' []))
         else if selector = ''#confirm'' then Inr (Some (input ''password'' ''confirm'' ''secret'' []))
         else if selector = ''##'' then Inl SyntaxError
         else Inr None)\<rparr>"

definition example_validator :: "FormField list \<Rightarrow> element list \<Rightarrow> validator" where
  "example_validator fieldSettings tracked =
     \<lparr>v_form = Some example_form, v_fields = Some tracked,
      v_settings = Some (example_settings fieldSettings), v_messages = messages\<rparr>"

definition equalTo_missing :: FormRuleValidation where
  "equalTo_missing =
     \<lparr>r_method = Named ''equalTo'', r_field = Some ''#missing'', r_min = None, r_max = None,
      r_errorMessage = None\<rparr>"

definition throwing_rule :: FormRuleValidation where
  "throwing_rule =
     \<lparr>r_method = Predicate (\<lambda>v field. Inl (Thrown ''predicate'')), r_field = None,
      r_min = None, r_max = None, r_errorMessage = None\<rparr>"

definition empty_document :: document where
  "empty_document = \<lparr>nodes = [], visited = []\<rparr>"

section \<open>Properties of the settings merger\<close>

lemma merge_not_object: "\<not> is_object b \<Longrightarrow> merge a b = b"
  by (simp add: merge.simps)

lemma merge_over_primitive: "is_object b \<Longrightarrow> \<not> is_object a \<Longrightarrow> merge a b = clone b"
  by (simp add: merge.simps)

lemma merge_objects:
  "is_object a \<Longrightarrow> is_object b \<Longrightarrow>
   merge a b = JObj (isArray b)
     (map (\<lambda>key. (key, if get b key = JUndefined then clone (get a key)
                       else merge (get a key) (get b key)))
          (key_set (own_keys a @ own_keys b)))"
  by (subst merge.simps) simp

lemma remdups_absorb: "set xs \<subseteq> set ys \<Longrightarrow> remdups (xs @ ys) = remdups ys"
  by (induction xs) auto

lemma key_set_self: "distinct ks \<Longrightarrow> key_set (ks @ ks) = ks"
  by (simp add: key_set_def remdups_absorb distinct_remdups_id)

lemma get_distinct:
  "distinct (map fst ps) \<Longrightarrow> p \<in> set ps \<Longrightarrow> get (JObj arr ps) (fst p) = snd p"
  by (cases p) simp

lemma rebuild_properties:
  "distinct (map fst ps) \<Longrightarrow> \<forall>p\<in>set ps. f (fst p) = snd p \<Longrightarrow>
   map (\<lambda>k. (k, f k)) (map fst ps) = ps"
  by (induction ps) auto

lemma merge_self: "plain v \<Longrightarrow> merge v v = v"
proof (induction v)
  case (JObj arr ps)
  let ?v = "JObj arr ps"
  let ?f = "\<lambda>key. if get ?v key = JUndefined then clone (get ?v key)
                  else merge (get ?v key) (get ?v key)"
  from JObj.prems have d: "distinct (map fst ps)" and pl: "\<forall>p\<in>set ps. plain (snd p)"
    by simp_all
  have "\<forall>p\<in>set ps. ?f (fst p) = snd p"
  proof
    fix p assume p: "p \<in> set ps"
    then have g: "get ?v (fst p) = snd p" using d by (rule get_distinct[rotated])
    have "snd p \<in> Basic_BNFs.snds p" by (cases p) simp
    with JObj.IH p pl have "merge (snd p) (snd p) = snd p" by blast
    with g show "?f (fst p) = snd p" by simp
  qed
  with d have "map (\<lambda>k. (k, ?f k)) (map fst ps) = ps" by (rule rebuild_properties)
  moreover have "key_set (own_keys ?v @ own_keys ?v) = map fst ps"
    using d by (simp add: key_set_self)
  ultimately show ?case by (subst merge.simps) simp
qed (simp_all add: merge.simps)


text \<open>
  Outside the plain values the merge does not give its argument back: \<^verbatim>\<open>merge\<close>
  rebuilds every object from its enumerable keys, and a \<^verbatim>\<open>Date\<close> has none.
\<close>

lemma merge_date_self: "merge (JDate d) (JDate d) = JObj False []"
  by (simp add: merge_objects key_set_def)

text \<open>
  C9: \<^verbatim>\<open>deepMerge\<close> is idempotent: merging a configuration object (a plain value)
  with itself gives the same object back, property by property; and merging
  \<^verbatim>\<open>{a: null}\<close> over \<^verbatim>\<open>{a: 1, b: 2}\<close> gives \<^verbatim>\<open>{a: null, b: 2}\<close>: the \<^verbatim>\<open>null\<close>
  replaces the base value and the untouched key is kept.
\<close>

theorem deepMerge_idempotent:
  "(plain c \<longrightarrow> deepMerge c c = c) \<and>
   deepMerge (JObj False [(''a'', JNum 1), (''b'', JNum 2)]) (JObj False [(''a'', JNull)])
     = JObj False [(''a'', JNull), (''b'', JNum 2)]"
proof
  show "plain c \<longrightarrow> deepMerge c c = c"
    by (simp add: deepMerge_def merge_self)
  show "deepMerge (JObj False [(''a'', JNum 1), (''b'', JNum 2)]) (JObj False [(''a'', JNull)])
     = JObj False [(''a'', JNull), (''b'', JNum 2)]"
    by (simp add: deepMerge_def merge_objects key_set_def merge_not_object)
qed

theorem deepMerge_idempotent_witness:
  "plain (JObj False
      [(''errorClass'', JStr ''error''),
       (''fields'', JObj True
          [(''0'', JObj False
             [(''name'', JStr ''password''),
              (''rules'', JObj True
                 [(''0'', JObj False [(''method'', JFun 0), (''errorMessage'', JNull)]),
                  (''1'', JObj False [(''method'', JStr ''minlength''), (''min'', JNum 8)])])])]),
       (''submitHandler'', JNull)]) \<and>
   deepMerge (JObj False
      [(''errorClass'', JStr ''error''),
       (''fields'', JObj True
          [(''0'', JObj False
             [(''name'', JStr ''password''),
              (''rules'', JObj True
                 [(''0'', JObj False [(''method'', JFun 0), (''errorMessage'', JNull)]),
                  (''1'', JObj False [(''method'', JStr ''minlength''), (''min'', JNum 8)])])])]),
       (''submitHandler'', JNull)])
     (JObj False
      [(''errorClass'', JStr ''error''),
       (''fields'', JObj True
          [(''0'', JObj False
             [(''name'', JStr ''password''),
              (''rules'', JObj True
                 [(''0'', JObj False [(''method'', JFun 0), (''errorMessage'', JNull)]),
                  (''1'', JObj False [(''method'', JStr ''minlength''), (''min'', JNum 8)])])])]),
       (''submitHandler'', JNull)])
   = JObj False
      [(''errorClass'', JStr ''error''),
       (''fields'', JObj True
          [(''0'', JObj False
             [(''name'', JStr ''password''),
              (''rules'', JObj True
                 [(''0'', JObj False [(''method'', JFun 0), (''errorMessage'', JNull)]),
                  (''1'', JObj False [(''method'', JStr ''minlength''), (''min'', JNum 8)])])])]),
       (''submitHandler'', JNull)]"
proof -
  let ?c = "JObj False
      [(''errorClass'', JStr ''error''),
       (''fields'', JObj True
          [(''0'', JObj False
             [(''name'', JStr ''password''),
              (''rules'', JObj True
                 [(''0'', JObj False [(''method'', JFun 0), (''errorMessage'', JNull)]),
                  (''1'', JObj False [(''method'', JStr ''minlength''), (''min'', JNum 8)])])])]),
       (''submitHandler'', JNull)]"
  have p: "plain ?c" by simp
  with deepMerge_idempotent [of ?c] show ?thesis by blast
qed

section \<open>Properties of construction and message loading\<close>

lemma set_key_set: "set (key_set ks) = set ks"
  by (simp add: key_set_def)

lemma map_of_tabulate:
  "map_of (map (\<lambda>k. (k, f k)) ks) key = (if key \<in> set ks then Some (f key) else None)"
  by (induction ks) auto

lemma get_in_keys: "get b key \<noteq> JUndefined \<Longrightarrow> key \<in> set (own_keys b)"
  by (cases b) (auto split: option.splits dest: map_of_SomeD simp: rev_image_eqI)

lemma map_of_clone:
  "map_of (map (map_prod id clone) ps) key = map_option clone (map_of ps key)"
  by (induction ps) auto

lemma clone_primitive: "\<not> is_object v \<Longrightarrow> clone v = v"
  by (cases v) auto

lemma get_tabulate:
  "get (JObj arr (map (\<lambda>k. (k, f k)) ks)) key = (if key \<in> set ks then f key else JUndefined)"
  by (simp add: map_of_tabulate)

lemma get_clone: "get (clone (JObj False ps)) key = clone (get (JObj False ps) key)"
  by (simp add: map_of_clone split: option.splits)

text \<open>A primitive entry of the second argument always wins over the first argument.\<close>

lemma get_merge_primitive:
  assumes "get (JObj False ps) key \<noteq> JUndefined" "\<not> is_object (get (JObj False ps) key)"
  shows "get (merge a (JObj False ps)) key = get (JObj False ps) key"
proof (cases "is_object a")
  case True
  let ?b = "JObj False ps"
  have k: "key \<in> set (key_set (own_keys a @ own_keys ?b))"
    using get_in_keys[OF assms(1)] by (simp add: set_key_set)
  have "get (merge a ?b) key = merge (get a key) (get ?b key)"
    using True k assms(1) by (simp add: merge_objects get_tabulate del: get.simps)
  then show ?thesis using assms(2) by (simp add: merge_not_object del: get.simps)
next
  case False
  then have "merge a (JObj False ps) = clone (JObj False ps)"
    by (simp add: merge_over_primitive)
  then show ?thesis using assms(2)
    by (simp add: get_clone clone_primitive del: get.simps clone.simps)
qed

lemma default_messages_canonical:
  "key \<in> set (own_keys default_messages) \<Longrightarrow>
   get default_messages key \<noteq> JUndefined \<and> \<not> is_object (get default_messages key)"
  by (auto simp: default_messages_def)

lemma constructor_object:
  assumes "is_object settings"
  shows "constructor True settings =
    Inr \<lparr>inst_settings = deepMerge (default_settings default_messages) settings,
         inst_messages =
           deepMerge (get (deepMerge (default_settings default_messages) settings) ''messages'')
             default_messages\<rparr>"
proof -
  have "is_object (default_settings default_messages)" by (simp add: default_settings_def)
  then obtain ps where
    "merge (default_settings default_messages) settings = JObj (isArray settings) ps"
    using assms by (simp add: merge_objects)
  then show ?thesis by (simp add: constructor_def deepMerge_def property_def)
qed

lemma merge_keeps_catalog:
  assumes "default_catalog msgs"
  shows "default_catalog (merge m msgs)"
proof -
  from assms obtain ps where ps: "msgs = JObj False ps" by (auto simp: default_catalog_def)
  have shape: "\<exists>qs. merge m msgs = JObj False qs"
    unfolding ps by (cases "is_object m") (simp_all add: merge_objects merge_over_primitive)
  have "get (merge m msgs) key = get default_messages key"
    if k: "key \<in> set (own_keys default_messages)" for key
  proof -
    from assms k have g: "get msgs key = get default_messages key"
      by (simp add: default_catalog_def)
    with default_messages_canonical[OF k]
    have "get (JObj False ps) key \<noteq> JUndefined" "\<not> is_object (get (JObj False ps) key)"
      unfolding ps by simp_all
    then have "get (merge m (JObj False ps)) key = get (JObj False ps) key"
      by (rule get_merge_primitive)
    with g show ?thesis unfolding ps by simp
  qed
  with shape show ?thesis unfolding default_catalog_def by blast
qed

lemma default_catalog_default: "default_catalog default_messages"
  by (simp add: default_catalog_def default_messages_def)

text \<open>
  Whatever the settings, the catalog the constructor leaves in \<^verbatim>\<open>this.messages\<close>
  maps the library's keys to the library's messages, and no later \<^verbatim>\<open>loadMessages\<close>
  changes that: in both calls of \<^verbatim>\<open>deepMerge\<close> the current catalog is the second
  argument, the one that wins.
\<close>

lemma constructor_catalog:
  assumes "constructor form settings = Inr i"
  shows "default_catalog (inst_messages i)"
  using assms merge_keeps_catalog[OF default_catalog_default] default_catalog_default
  by (auto simp: constructor_def deepMerge_def Let_def split: if_splits sum.splits)

lemma loadMessages_catalog:
  assumes "default_catalog (inst_messages i)"
  shows "default_catalog (inst_messages (loadMessages data i))"
  using assms merge_keeps_catalog[OF assms]
  by (auto simp: loadMessages_def deepMerge_def split: sum.splits)

text \<open>
  C2: constructing the validator on a form with the settings argument omitted. The
  merge of the defaults with \<^verbatim>\<open>undefined\<close> is \<^verbatim>\<open>undefined\<close>, and the read of
  \<^verbatim>\<open>this.settings.messages\<close> that follows raises a \<^verbatim>\<open>TypeError\<close>: the construction
  does not succeed.
\<close>

theorem constructor_without_settings: "constructor True JUndefined = Inl TypeError"
  by (simp add: constructor_def deepMerge_def merge_not_object property_def)

text \<open>
  C3: message overrides. With the settings \<^verbatim>\<open>{messages: {required: "X"}}\<close> the
  construction succeeds and the catalog still maps \<^verbatim>\<open>required\<close> to the library's
  message, not to \<^verbatim>\<open>"X"\<close>; after \<^verbatim>\<open>loadMessages\<close> has received
  \<^verbatim>\<open>{messages: {required: "Y"}}\<close> it still does.
\<close>

theorem message_overrides_discarded:
  "\<exists>i. constructor True (JObj False [(''messages'', JObj False [(''required'', JStr ''X'')])])
         = Inr i
     \<and> get (inst_messages i) ''required'' = JStr ''This field is required.''
     \<and> get (inst_messages
           (loadMessages (JObj False [(''messages'', JObj False [(''required'', JStr ''Y'')])]) i))
          ''required'' = JStr ''This field is required.''"
proof -
  let ?cfg = "JObj False [(''messages'', JObj False [(''required'', JStr ''X'')])]"
  let ?data = "JObj False [(''messages'', JObj False [(''required'', JStr ''Y'')])]"
  have "is_object ?cfg" by simp
  from constructor_object[OF this] obtain i where i: "constructor True ?cfg = Inr i" by blast
  have k: "''required'' \<in> set (own_keys default_messages)"
    and d: "get default_messages ''required'' = JStr ''This field is required.''"
    by (simp_all add: default_messages_def)
  have c: "default_catalog (inst_messages i)" using i by (rule constructor_catalog)
  from c k d have 1: "get (inst_messages i) ''required'' = JStr ''This field is required.''"
    by (simp add: default_catalog_def)
  from loadMessages_catalog[OF c, of ?data] k d
  have 2: "get (inst_messages (loadMessages ?data i)) ''required''
           = JStr ''This field is required.''"
    by (simp add: default_catalog_def)
  from i 1 2 show ?thesis by blast
qed

section \<open>Properties of the predicate library\<close>

lemma iterate_sound:
  assumes f: "\<And>s t. t \<in> set (f s) \<Longrightarrow> \<exists>u. L u \<and> s = u @ t"
  shows "t \<in> set (iterate f n s) \<Longrightarrow> \<exists>us. list_all L us \<and> s = concat us @ t"
proof (induction n arbitrary: s)
  case 0
  then have "list_all L [] \<and> s = concat [] @ t" by simp
  then show ?case by blast
next
  case (Suc n)
  show ?case
  proof (cases "t = s")
    case True
    then have "list_all L [] \<and> s = concat [] @ t" by simp
    then show ?thesis by blast
  next
    case False
    with Suc.prems obtain m where m: "m \<in> set (f s)" and t: "t \<in> set (iterate f n m)"
      by auto
    from f[OF m] obtain u where u: "L u" "s = u @ m" by blast
    from Suc.IH[OF t] obtain us where us: "list_all L us" "m = concat us @ t" by blast
    from u us have "list_all L (u # us) \<and> s = concat (u # us) @ t" by simp
    then show ?thesis by blast
  qed
qed

lemma repeat_sound:
  assumes f: "\<And>s t. t \<in> set (f s) \<Longrightarrow> \<exists>u. L u \<and> s = u @ t"
  shows "t \<in> set (repeat f lo hi s) \<Longrightarrow>
         \<exists>us. list_all L us \<and> lo \<le> length us \<and> length us \<le> hi \<and> s = concat us @ t"
proof (induction hi arbitrary: lo s)
  case 0
  then have "list_all L [] \<and> lo \<le> length ([]::string list)
      \<and> length ([]::string list) \<le> 0 \<and> s = concat [] @ t"
    by (simp split: if_splits)
  then show ?case by blast
next
  case (Suc hi)
  from Suc.prems consider (stop) "lo = 0" "t = s"
    | (go) m where "m \<in> set (f s)" "t \<in> set (repeat f (lo - 1) hi m)"
    by (auto split: if_splits)
  then show ?case
  proof cases
    case stop
    then have "list_all L [] \<and> lo \<le> length ([]::string list)
        \<and> length ([]::string list) \<le> Suc hi \<and> s = concat [] @ t"
      by simp
    then show ?thesis by blast
  next
    case go
    from f[OF go(1)] obtain u where u: "L u" "s = u @ m" by blast
    from Suc.IH[OF go(2)] obtain us where
      us: "list_all L us" "lo - 1 \<le> length us" "length us \<le> hi" "m = concat us @ t" by blast
    from u us have "list_all L (u # us) \<and> lo \<le> length (u # us) \<and> length (u # us) \<le> Suc hi
        \<and> s = concat (u # us) @ t" by auto
    then show ?thesis by blast
  qed
qed

text \<open>Whatever the matcher consumes is a word of the expression.\<close>

lemma residuals_sound: "t \<in> set (residuals r s) \<Longrightarrow> \<exists>u. lang r u \<and> s = u @ t"
proof (induction r arbitrary: s t)
  case Eps
  then show ?case by simp
next
  case (Class P)
  then show ?case by (cases s) (auto split: if_splits)
next
  case (Seq r1 r2)
  from Seq.prems obtain m where m: "m \<in> set (residuals r1 s)" and t: "t \<in> set (residuals r2 m)"
    by auto
  from Seq.IH(1)[OF m] obtain u1 where u1: "lang r1 u1" "s = u1 @ m" by blast
  from Seq.IH(2)[OF t] obtain u2 where u2: "lang r2 u2" "m = u2 @ t" by blast
  from u1 u2 have "lang (Seq r1 r2) (u1 @ u2) \<and> s = (u1 @ u2) @ t" by auto
  then show ?case by blast
next
  case (Alt r1 r2)
  from Alt.prems have "t \<in> set (residuals r1 s) \<or> t \<in> set (residuals r2 s)" by simp
  with Alt.IH show ?case by fastforce
next
  case (Star r)
  from Star.prems have "t \<in> set (iterate (residuals r) (length s) s)" by simp
  from iterate_sound[of "residuals r" "lang r", OF Star.IH this] show ?case by auto
next
  case (Repeat lo hi r)
  from Repeat.prems have "t \<in> set (repeat (residuals r) lo hi s)" by simp
  from repeat_sound[of "residuals r" "lang r", OF Repeat.IH this] show ?case by auto
next
  case (NotAhead r)
  then show ?case by (auto split: if_splits)
qed

lemma test_lang: "test r s \<Longrightarrow> lang r s"
  using residuals_sound[of "[]" r s] by (auto simp: test_def)

lemma concat_singletons:
  "list_all (lang (Class P)) us \<Longrightarrow> list_all P (concat us) \<and> length (concat us) = length us"
  by (induction us) auto

lemma lang_label: "lang label l \<Longrightarrow> is_label l"
proof -
  assume "lang label l"
  then obtain c us where c: "is_alnum c" and l: "l = c # concat us"
    and us: "list_all (lang (Seq (Repeat 0 61 (Class is_alnum_hyphen)) (Class is_alnum))) us"
      "length us \<le> 1"
    by (auto simp: label_def Opt_def)
  show ?thesis
  proof (cases us)
    case Nil
    with c l show ?thesis by (simp add: is_label_def is_alnum_hyphen_def)
  next
    case (Cons u rest)
    with us have rest: "rest = []" by simp
    from us(1) Cons have "lang (Seq (Repeat 0 61 (Class is_alnum_hyphen)) (Class is_alnum)) u"
      by simp
    then obtain ws d where d: "is_alnum d" and u: "u = concat ws @ [d]"
      and ws: "list_all (lang (Class is_alnum_hyphen)) ws" "length ws \<le> 61"
      by auto
    from concat_singletons[OF ws(1)] ws(2)
    have m: "list_all is_alnum_hyphen (concat ws)" "length (concat ws) \<le> 61" by simp_all
    from l Cons rest u have "l = c # concat ws @ [d]" by simp
    with c d m show ?thesis by (simp add: is_label_def is_alnum_hyphen_def)
  qed
qed

lemma lang_dot_labels:
  "list_all (lang (Seq (Chr CHR ''.'') label)) us \<Longrightarrow> is_label l \<Longrightarrow>
   \<exists>ls. list_all is_label ls \<and> l @ concat us = dotted (l # ls)"
proof (induction us arbitrary: l)
  case Nil
  have "list_all is_label [] \<and> l @ concat [] = dotted (l # [])" by simp
  then show ?case by blast
next
  case (Cons u us)
  from Cons.prems(1) have hd: "lang (Seq (Chr CHR ''.'') label) u"
    and tl: "list_all (lang (Seq (Chr CHR ''.'') label)) us"
    by (simp_all del: lang.simps)
  from hd obtain l' where l': "u = CHR ''.'' # l'" "lang label l'"
    by (auto simp: Chr_def)
  then have il: "is_label l'" by (simp add: lang_label)
  from Cons.IH[OF tl il] obtain ls where
    ls: "list_all is_label ls" "l' @ concat us = dotted (l' # ls)"
    by blast
  with l' il have "list_all is_label (l' # ls) \<and> l @ concat (u # us) = dotted (l # l' # ls)"
    by simp
  then show ?case by blast
qed

text \<open>Every accepted address is a local part, \<^verbatim>\<open>@\<close>, and one label or more joined
  by dots.\<close>

lemma validEmail_shape:
  assumes "validEmail v"
  shows "\<exists>local ls. v = local @ ''@'' @ dotted ls \<and> local \<noteq> [] \<and> list_all is_local local
            \<and> ls \<noteq> [] \<and> list_all is_label ls"
proof -
  from assms have "lang email_regex v" by (simp add: validEmail_def test_lang)
  then obtain u1 l u4 where v: "v = u1 @ ''@'' @ l @ u4"
    and u1: "lang (Many1 (Class is_local)) u1" and l: "lang label l"
    and u4: "lang (Star (Seq (Chr CHR ''.'') label)) u4"
    by (auto simp: email_regex_def Chr_def simp del: lang.simps(5))
  from u1 obtain c us where c: "is_local c" and us: "list_all (lang (Class is_local)) us"
    and u1': "u1 = c # concat us"
    by (auto simp: Many1_def)
  from concat_singletons[OF us] c u1' have loc: "u1 \<noteq> []" "list_all is_local u1" by simp_all
  from u4 obtain ws where ws: "list_all (lang (Seq (Chr CHR ''.'') label)) ws" "u4 = concat ws"
    by auto
  from lang_dot_labels[OF ws(1) lang_label[OF l]] obtain ls where
    ls: "list_all is_label ls" "l @ concat ws = dotted (l # ls)" by blast
  from v ws(2) ls(2) have "v = u1 @ ''@'' @ dotted (l # ls)" by simp
  with loc ls(1) lang_label[OF l] show ?thesis
    by (intro exI[of _ u1] exI[of _ "l # ls"]) simp
qed

text \<open>Conversely, on an expression without look-ahead the matcher finds every word of the
  expression: there \<open>test\<close> decides \<open>lang\<close>.\<close>

lemma iterate_self: "s \<in> set (iterate f n s)"
  by (cases n) simp_all

lemma iterate_complete:
  assumes f: "\<And>u t. L u \<Longrightarrow> t \<in> set (f (u @ t))"
  shows "list_all L us \<Longrightarrow> length (concat us @ t) \<le> n \<Longrightarrow> t \<in> set (iterate f n (concat us @ t))"
proof (induction us arbitrary: n)
  case Nil
  then show ?case by (simp add: iterate_self)
next
  case (Cons u us)
  show ?case
  proof (cases "u = []")
    case True
    with Cons show ?thesis by simp
  next
    case False
    let ?m = "concat us @ t"
    from False Cons.prems(2) obtain n' where n: "n = Suc n'" and le: "length ?m \<le> n'"
      by (cases n) (auto simp: neq_Nil_conv)
    from Cons.prems(1) have "L u" and rest: "list_all L us" by simp_all
    from f[OF \<open>L u\<close>, of ?m] have m: "?m \<in> set (f (u @ ?m))" .
    from False have lt: "length ?m < length (u @ ?m)" by simp
    from Cons.IH[OF rest le] have "t \<in> set (iterate f n' ?m)" .
    with m lt have "t \<in> set (iterate f (Suc n') (u @ ?m))" by (auto intro!: bexI[of _ ?m])
    then show ?thesis by (simp add: n)
  qed
qed

lemma repeat_stop: "s \<in> set (repeat f 0 hi s)"
  by (cases hi) simp_all

lemma repeat_complete:
  assumes f: "\<And>u t. L u \<Longrightarrow> t \<in> set (f (u @ t))"
  shows "list_all L us \<Longrightarrow> lo \<le> length us \<Longrightarrow> length us \<le> hi \<Longrightarrow>
         t \<in> set (repeat f lo hi (concat us @ t))"
proof (induction us arbitrary: lo hi)
  case Nil
  then show ?case by (simp add: repeat_stop)
next
  case (Cons u us)
  let ?m = "concat us @ t"
  from Cons.prems(3) obtain hi' where hi: "hi = Suc hi'" and le: "length us \<le> hi'"
    by (cases hi) auto
  from Cons.prems(1) have "L u" and rest: "list_all L us" by simp_all
  from f[OF \<open>L u\<close>, of ?m] have m: "?m \<in> set (f (u @ ?m))" .
  from Cons.prems(2) have "lo - 1 \<le> length us" by simp
  from Cons.IH[OF rest this le] have "t \<in> set (repeat f (lo - 1) hi' ?m)" .
  with m have "t \<in> set (repeat f lo (Suc hi') (u @ ?m))" by (auto intro!: bexI[of _ ?m])
  then show ?case by (simp add: hi)
qed

lemma residuals_complete:
  "no_lookahead r \<Longrightarrow> lang r u \<Longrightarrow> t \<in> set (residuals r (u @ t))"
proof (induction r arbitrary: u t)
  case Eps
  then show ?case by simp
next
  case (Class P)
  then show ?case by auto
next
  case (Seq r1 r2)
  from Seq.prems obtain u1 u2 where u: "lang r1 u1" "lang r2 u2" "u = u1 @ u2" by auto
  from Seq.prems(1) have n: "no_lookahead r1" "no_lookahead r2" by simp_all
  from Seq.IH(1)[OF n(1) u(1), of "u2 @ t"] Seq.IH(2)[OF n(2) u(2), of t] u(3)
  show ?case by (auto intro!: bexI[of _ "u2 @ t"])
next
  case (Alt r1 r2)
  then show ?case by auto
next
  case (Star r)
  from Star.prems obtain us where us: "list_all (lang r) us" "u = concat us" by auto
  from Star.prems(1) have n: "no_lookahead r" by simp
  have "t \<in> set (iterate (residuals r) (length (concat us @ t)) (concat us @ t))"
    by (rule iterate_complete[of "lang r", OF Star.IH[OF n] us(1)]) simp_all
  with us(2) show ?case by simp
next
  case (Repeat lo hi r)
  from Repeat.prems obtain us where us: "list_all (lang r) us" "lo \<le> length us" "length us \<le> hi"
    "u = concat us" by auto
  from Repeat.prems(1) have n: "no_lookahead r" by simp
  from repeat_complete[of "lang r", OF Repeat.IH[OF n] us(1,2,3), of t] us(4)
  show ?case by simp
next
  case (NotAhead r)
  then show ?case by simp
qed

lemma test_iff_lang: "no_lookahead r \<Longrightarrow> test r s \<longleftrightarrow> lang r s"
  using residuals_complete[of r s "[]"] test_lang[of r s] by (auto simp: test_def)

lemma no_lookahead_email: "no_lookahead email_regex"
  by (simp add: email_regex_def label_def Many1_def Opt_def Chr_def)

text \<open>The converse of \<open>validEmail_shape\<close>, and the two together.\<close>

lemma singletons_lang:
  "list_all P w \<Longrightarrow> list_all (lang (Class P)) (map (\<lambda>c. [c]) w) \<and> concat (map (\<lambda>c. [c]) w) = w"
  by (induction w) auto

lemma lang_SeqI: "lang r1 u \<Longrightarrow> lang r2 v \<Longrightarrow> lang (Seq r1 r2) (u @ v)"
  by auto

lemma lang_ClassI: "P c \<Longrightarrow> lang (Class P) [c]"
  by simp

lemma label_lang: "is_label l \<Longrightarrow> lang label l"
proof -
  assume l: "is_label l"
  then obtain c rest where lc: "l = c # rest" and c: "is_alnum c"
    by (cases l) (auto simp: is_label_def)
  show ?thesis
  proof (cases "rest = []")
    case True
    have "lang (Opt (Seq (Repeat 0 61 (Class is_alnum_hyphen)) (Class is_alnum))) []"
      unfolding Opt_def lang.simps by (rule exI[of _ "[]"]) simp
    with lang_ClassI[of is_alnum c, OF c] have "lang label ([c] @ [])" unfolding label_def by (rule lang_SeqI)
    with lc True show ?thesis by simp
  next
    case False
    then obtain mid d where rest: "rest = mid @ [d]" by (cases rest rule: rev_cases) auto
    from l lc rest have d: "is_alnum d" and mid: "list_all is_alnum_hyphen mid"
      and len: "length mid \<le> 61"
      by (auto simp: is_label_def)
    from singletons_lang[OF mid] len
    have "lang (Repeat 0 61 (Class is_alnum_hyphen)) mid"
      unfolding lang.simps by (intro exI[of _ "map (\<lambda>c. [c]) mid"]) simp
    then have x: "lang (Seq (Repeat 0 61 (Class is_alnum_hyphen)) (Class is_alnum)) (mid @ [d])"
      using lang_ClassI[of is_alnum d, OF d] by (rule lang_SeqI)
    have "lang (Opt (Seq (Repeat 0 61 (Class is_alnum_hyphen)) (Class is_alnum))) (mid @ [d])"
      unfolding Opt_def lang.simps(6)
      using x by (intro exI[of _ "[mid @ [d]]"]) (simp del: lang.simps)
    with lang_ClassI[of is_alnum c, OF c] have "lang label ([c] @ (mid @ [d]))"
      unfolding label_def by (rule lang_SeqI)
    with lc rest show ?thesis by simp
  qed
qed

lemma dotted_Cons: "dotted (l # ls) = l @ concat (map (\<lambda>x. CHR ''.'' # x) ls)"
  by (induction ls arbitrary: l) auto

lemma dot_labels_lang:
  "list_all is_label ls \<Longrightarrow>
   list_all (lang (Seq (Chr CHR ''.'') label)) (map (\<lambda>x. CHR ''.'' # x) ls)"
proof (induction ls)
  case Nil
  then show ?case by simp
next
  case (Cons l ls)
  from Cons.prems have "lang label l" by (simp add: label_lang)
  have "lang (Chr CHR ''.'') [CHR ''.'']" by (simp add: Chr_def)
  from this \<open>lang label l\<close> have "lang (Seq (Chr CHR ''.'') label) ([CHR ''.''] @ l)"
    by (rule lang_SeqI)
  with Cons show ?case by (simp del: lang.simps)
qed

lemma shape_validEmail:
  assumes "local \<noteq> []" "list_all is_local local" "ls \<noteq> []" "list_all is_label ls"
  shows "validEmail (local @ ''@'' @ dotted ls)"
proof -
  from assms(1) obtain c cs where lc: "local = c # cs" by (cases local) auto
  with assms(2) have c: "is_local c" and cs: "list_all is_local cs" by simp_all
  from singletons_lang[OF cs] have "lang (Star (Class is_local)) cs"
    unfolding lang.simps by (intro exI[of _ "map (\<lambda>c. [c]) cs"]) simp
  with lang_ClassI[of is_local c, OF c] have 1: "lang (Many1 (Class is_local)) ([c] @ cs)"
    unfolding Many1_def by (rule lang_SeqI)
  from assms(3) obtain l rest where ls: "ls = l # rest" by (cases ls) auto
  with assms(4) have l: "lang label l" and rest: "list_all is_label rest"
    by (simp_all add: label_lang)
  from dot_labels_lang[OF rest]
  have "lang (Star (Seq (Chr CHR ''.'') label)) (concat (map (\<lambda>x. CHR ''.'' # x) rest))"
    unfolding lang.simps(5) by (intro exI[of _ "map (\<lambda>x. CHR ''.'' # x) rest"]) simp
  with l have 2: "lang (Seq label (Star (Seq (Chr CHR ''.'') label))) (dotted ls)"
    unfolding ls dotted_Cons by (rule lang_SeqI)
  have "lang (Chr CHR ''@'') ''@''" by (simp add: Chr_def)
  from this 2 have 3: "lang (Seq (Chr CHR ''@'') (Seq label (Star (Seq (Chr CHR ''.'') label))))
      (''@'' @ dotted ls)" by (rule lang_SeqI)
  from 1 3 have "lang email_regex (([c] @ cs) @ (''@'' @ dotted ls))"
    unfolding email_regex_def by (rule lang_SeqI)
  with lc show ?thesis by (simp add: validEmail_def test_iff_lang[OF no_lookahead_email])
qed

lemma validEmail_iff:
  "validEmail v \<longleftrightarrow>
     (\<exists>local ls. v = local @ ''@'' @ dotted ls \<and> local \<noteq> [] \<and> list_all is_local local
          \<and> ls \<noteq> [] \<and> list_all is_label ls)"
  using validEmail_shape[of v] shape_validEmail by blast

lemma repeat_numeral:
  "repeat f lo (numeral k) s =
     (if lo = 0 then [s] else []) @ concat (map (repeat f (lo - 1) (pred_numeral k)) (f s))"
  by (simp add: numeral_eq_Suc)

lemmas email_eval =
  validEmail_def test_def email_regex_def label_def Many1_def Opt_def Chr_def
  is_local_def is_alnum_def is_alnum_hyphen_def is_lower_def is_upper_def is_digit_def
  in_range_def repeat_numeral

text \<open>
  C5: \<^verbatim>\<open>validEmail\<close> accepts \<^verbatim>\<open>a@b.com\<close> and rejects \<^verbatim>\<open>not-an-email\<close>. As stated the
  claim also says that no accepted value has a dotless domain; the pattern makes the
  dot-separated segments optional (\<^verbatim>\<open>(?:\.label)*\<close>), and \<^verbatim>\<open>a@b\<close> is accepted.
\<close>

theorem validEmail_dotless_counterexample:
  "validEmail (''a'' @ ''@'' @ ''b'') \<and> CHR ''.'' \<notin> set ''b''"
  by (simp add: email_eval)

text \<open>
  C5, amended: \<^verbatim>\<open>validEmail\<close> accepts \<^verbatim>\<open>a@b.com\<close> and rejects \<^verbatim>\<open>not-an-email\<close>, and
  the values it accepts are exactly those made of a non-empty local part of allowed
  characters, \<^verbatim>\<open>@\<close>, and a domain of one label or more joined by dots (a dotless
  domain is accepted).
\<close>

theorem validEmail_accepts:
  "validEmail ''a@b.com'' \<and> \<not> validEmail ''not-an-email'' \<and>
   (validEmail v \<longleftrightarrow>
      (\<exists>local ls. v = local @ ''@'' @ dotted ls \<and> local \<noteq> [] \<and> list_all is_local local
          \<and> ls \<noteq> [] \<and> list_all is_label ls))"
proof (intro conjI)
  show "validEmail ''a@b.com''" by (simp add: email_eval)
  show "\<not> validEmail ''not-an-email''" by (simp add: email_eval)
  show "validEmail v \<longleftrightarrow>
      (\<exists>local ls. v = local @ ''@'' @ dotted ls \<and> local \<noteq> [] \<and> list_all is_local local
          \<and> ls \<noteq> [] \<and> list_all is_label ls)"
    by (rule validEmail_iff)
qed

theorem validEmail_accepts_witness:
  "validEmail ''john@example.org'' \<and>
   (\<exists>local ls. ''john@example.org'' = local @ ''@'' @ dotted ls \<and> local \<noteq> []
       \<and> list_all is_local local \<and> ls \<noteq> [] \<and> list_all is_label ls)"
proof -
  have v: "validEmail ''john@example.org''" by (simp add: email_eval)
  with validEmail_accepts [of "''john@example.org''"] show ?thesis by blast
qed

section \<open>Properties of validDate\<close>

lemma validDate_unparseable: "Date_parse H (el_value field) = None \<Longrightarrow> \<not> validDate H field"
  by (simp add: validDate_def)

text \<open>Within the bounds, and away from the time value \<^verbatim>\<open>0\<close>, a date is accepted.\<close>

lemma validDate_in_bounds:
  assumes "Date_parse H (el_value field) = Some t" "t \<noteq> 0"
    and "case getAttribute field ''min'' of None \<Rightarrow> True
         | Some a \<Rightarrow> (case Date_parse H a of None \<Rightarrow> True | Some lo \<Rightarrow> lo \<le> t)"
    and "case getAttribute field ''max'' of None \<Rightarrow> True
         | Some a \<Rightarrow> (case Date_parse H a of None \<Rightarrow> True | Some hi \<Rightarrow> t \<le> hi)"
  shows "validDate H field"
  using assms by (auto simp: validDate_def split: option.splits)

text \<open>
  C4: \<^verbatim>\<open>validDate\<close> is to accept every value that parses as a date and lies within
  the bounds. A value whose time value is \<^verbatim>\<open>0\<close> (\<^verbatim>\<open>1970-01-01\<close>, midnight UTC)
  parses, and is rejected whatever the bounds: the test \<^verbatim>\<open>if (value)\<close> takes \<^verbatim>\<open>0\<close>
  for \<^verbatim>\<open>NaN\<close>.
\<close>

theorem validDate_rejects_epoch:
  "Date_parse H (el_value field) = Some 0 \<Longrightarrow> \<not> validDate H field"
  by (simp add: validDate_def)

theorem validDate_rejects_epoch_witness:
  "Date_parse example_host (el_value (input ''date'' ''born'' ''1970-01-01'' [])) = Some 0
   \<and> \<not> validDate example_host (input ''date'' ''born'' ''1970-01-01'' [])"
proof -
  have h: "Date_parse example_host (el_value (input ''date'' ''born'' ''1970-01-01'' [])) = Some 0"
    by (simp add: example_host_def input_def)
  from h validDate_rejects_epoch [OF h] show ?thesis by (rule conjI)
qed

section \<open>Properties of validateField\<close>

text \<open>Evaluation of the examples.\<close>

lemmas regex_eval = test_def Many1_def Opt_def Chr_def is_alnum_def is_lower_def is_upper_def
  is_digit_def in_range_def repeat_numeral
lemmas length_eval = getLength_def minlength_def maxlength_def rangelength_def toLowerCase_def
  checkable_def parseInt_def is_space_def digit_value_def Let_def validDigits_def
lemmas field_eval = input_def getAttribute_def hasAttribute_def attribute_set_def
  customErrorMessage_def minlength_attribute_def maxlength_attribute_def usable_def
  special_type_def
lemmas step_eval = validateField_trace_def evaluate_def initial_def required_step_def notEmpty_def
  block_steps_def type_steps_def pure_def min_step_def max_step_def range_step_def assign_def
  pattern_step_def declared_rules_def example_validator_def example_settings_def messages_def

lemma trace_not_entered:
  assumes "\<not> hasAttribute field ''required''" "el_value field = []"
  shows "validateField_trace H V field = Inr [(StepInit, initial field), (StepRequired, initial field)]"
  using assms by (simp add: validateField_trace_def required_step_def Let_def)

lemma run_append:
  "run (xs @ ys) st =
     (case run xs st of
        Inl e \<Rightarrow> Inl e
      | Inr tr \<Rightarrow>
          (case run ys (if tr = [] then st else snd (last tr)) of
             Inl e \<Rightarrow> Inl e
           | Inr tr' \<Rightarrow> Inr (tr @ tr')))"
proof (induction xs arbitrary: st)
  case Nil
  then show ?case by (simp split: sum.splits)
next
  case (Cons x xs)
  obtain n s where x: "x = (n, s)" by (cases x)
  show ?case unfolding x using Cons.IH
    by (auto split: sum.splits)
qed

lemma run_inert:
  assumes "\<forall>(n, s) \<in> set steps. inert s" "\<not> isValid st"
  shows "run steps st = Inr (map (\<lambda>(n, s). (n, st)) steps)"
  using assms by (induction steps) (auto simp: inert_def)

lemma inert_pattern_step: "inert (pattern_step H V field)"
  by (simp add: inert_def pattern_step_def)

lemma inert_rule_step: "inert (rule_step H V field rule)"
  by (simp add: inert_def rule_step_def)

lemma tail_inert: "\<forall>(n, s) \<in> set (tail_steps H V field). inert s"
  by (auto simp: tail_steps_def inert_pattern_step inert_rule_step)

lemma tail_names: "\<forall>(n, s) \<in> set (tail_steps H V field). n = StepPattern \<or> n = StepRule"
  by (auto simp: tail_steps_def)

lemma block_steps_tail: "block_steps H V field = type_steps H V field @ tail_steps H V field"
  by (simp add: block_steps_def tail_steps_def)

lemma last_map_const: "steps \<noteq> [] \<Longrightarrow> snd (last (map (\<lambda>(n, s). (n, st)) steps)) = st"
  by (induction steps) (auto split: prod.splits)

lemma run_tail_invalid:
  assumes "\<not> isValid st"
  shows "\<exists>tr. run (tail_steps H V field) st = Inr tr \<and> tr \<noteq> [] \<and> (\<forall>(n, s) \<in> set tr. s = st)"
proof -
  have "run (tail_steps H V field) st = Inr (map (\<lambda>(n, s). (n, st)) (tail_steps H V field))"
    using tail_inert assms by (rule run_inert)
  moreover have "tail_steps H V field \<noteq> []" by (simp add: tail_steps_def)
  ultimately show ?thesis by auto
qed

lemma last_all_same: "tr \<noteq> [] \<Longrightarrow> \<forall>(n, s) \<in> set tr. s = st \<Longrightarrow> snd (last tr) = st"
  by (induction tr) (auto split: if_splits)

lemma type_steps_default:
  "\<not> special_type field \<Longrightarrow> type_steps H V field =
     [(StepMinLength, pure (min_step V field)),
      (StepMaxLength, pure (max_step V field)),
      (StepRangeLength, pure (range_step V field))]"
  by (simp add: type_steps_def special_type_def)

lemma evaluate_default_invalid:
  assumes "\<not> special_type field"
    and "isValid (required_step V field (initial field))" "el_value field \<noteq> []"
    and "\<not> isValid (range_step V field (max_step V field (min_step V field
            (required_step V field (initial field)))))"
  shows "evaluate H V field =
           Inr (range_step V field (max_step V field (min_step V field
                  (required_step V field (initial field)))))"
proof -
  let ?c = "range_step V field (max_step V field (min_step V field
              (required_step V field (initial field))))"
  from run_tail_invalid[OF assms(4), of H] obtain tr where
    tr: "run (tail_steps H V field) ?c = Inr tr" "tr \<noteq> []" "\<forall>(n, s) \<in> set tr. s = ?c"
    by blast
  from last_all_same[OF tr(2,3)] have l: "snd (last tr) = ?c" .
  show ?thesis
    using assms(2,3) tr(1,2) l
    by (simp add: evaluate_def validateField_trace_def Let_def block_steps_tail
        type_steps_default[OF assms(1)] run_append pure_def)
qed

lemma not_usable_max: "\<not> usable (maxlength_attribute field) \<Longrightarrow> max_step V field st = st"
  by (cases "maxlength_attribute field") (simp_all add: max_step_def)

lemma not_usable_min: "\<not> usable (minlength_attribute field) \<Longrightarrow> min_step V field st = st"
  by (cases "minlength_attribute field") (simp_all add: min_step_def)

lemma not_usable_range:
  "\<not> usable (minlength_attribute field) \<or> \<not> usable (maxlength_attribute field) \<Longrightarrow>
   range_step V field st = st"
  by (cases "minlength_attribute field"; cases "maxlength_attribute field")
     (auto simp add: range_step_def)

lemma run_inert_frozen:
  assumes "\<forall>(n, s) \<in> set steps. inert s" "run steps st = Inr tr"
  shows "successively frozen ((n0, st) # tr)"
  using assms
proof (induction steps arbitrary: st tr n0)
  case Nil
  then show ?case by simp
next
  case (Cons x steps)
  obtain n s where x: "x = (n, s)" by (cases x)
  from Cons.prems(2) x obtain st' tr' where s: "s st = Inr st'" and r: "run steps st' = Inr tr'"
    and tr: "tr = (n, st') # tr'"
    by (auto split: sum.splits)
  from Cons.prems(1) x have i: "inert s" and rest: "\<forall>(n, s) \<in> set steps. inert s" by auto
  from i s have "frozen (n0, st) (n, st')" by (auto simp: frozen_def inert_def)
  moreover from Cons.IH[OF rest r] have "successively frozen ((n, st') # tr')" .
  ultimately show ?case unfolding tr by simp
qed

lemma frozen_last:
  "successively frozen xs \<Longrightarrow> x \<in> set xs \<Longrightarrow> \<not> isValid (snd x) \<Longrightarrow> snd (last xs) = snd x"
proof (induction xs arbitrary: x rule: induct_list012)
  case 1
  then show ?case by simp
next
  case (2 a)
  then show ?case by simp
next
  case (3 a b xs)
  show ?case
  proof (cases "x = a")
    case True
    with "3.prems" have "snd b = snd a" "\<not> isValid (snd b)" by (auto simp: frozen_def)
    with "3.IH"(2)[of b] "3.prems"(1) True show ?thesis by simp
  next
    case False
    with "3.prems" have "x \<in> set (b # xs)" by simp
    with "3.IH"(2)[of x] "3.prems" show ?thesis by simp
  qed
qed

lemma length_block:
  assumes "isValid st"
    and "\<not> isValid (min_step V field st) \<or> \<not> isValid (max_step V field (min_step V field st))"
  shows "\<not> isValid (range_step V field (max_step V field (min_step V field st)))"
proof (cases "usable (minlength_attribute field)")
  case umin: True
  then obtain mn where mn: "minlength_attribute field = Some mn" "usable (Some mn)"
    by (cases "minlength_attribute field") (auto simp: usable_def)
  show ?thesis
  proof (cases "usable (maxlength_attribute field)")
    case True
    then obtain mx where mx: "maxlength_attribute field = Some mx" "usable (Some mx)"
      by (cases "maxlength_attribute field") (auto simp: usable_def)
    from assms(2) mn mx
    have "\<not> minlength V (el_value field) field (parseInt mn)
        \<or> \<not> maxlength V (el_value field) field (parseInt mx)"
      by (auto simp: min_step_def max_step_def assign_def)
    then have "\<not> rangelength V (el_value field) field (parseInt mn, parseInt mx)"
      by (auto simp: minlength_def maxlength_def rangelength_def split: option.splits)
    with mn mx show ?thesis by (simp add: range_step_def assign_def)
  next
    case False
    with assms(2) show ?thesis by (simp add: not_usable_max not_usable_range)
  qed
next
  case False
  with assms show ?thesis by (simp add: not_usable_min not_usable_range)
qed


lemma frozen_undisturbed: "frozen x y \<Longrightarrow> undisturbed x y"
  by (simp add: frozen_def undisturbed_def)

lemma assign_custom:
  "customErrorMessage field \<noteq> [] \<Longrightarrow> errorMessage (assign field c ok m st) = errorMessage st"
  by (simp add: assign_def)

lemma run_preserves:
  assumes "\<forall>(n, s) \<in> set steps. \<forall>st st'. P st \<longrightarrow> s st = Inr st' \<longrightarrow> P st'"
    and "P st" "run steps st = Inr tr"
  shows "\<forall>(n, s) \<in> set tr. P s"
  using assms
proof (induction steps arbitrary: st tr)
  case Nil
  then show ?case by simp
next
  case (Cons x steps)
  obtain n s where x: "x = (n, s)" by (cases x)
  from Cons.prems(3) x obtain st' tr' where s: "s st = Inr st'" and r: "run steps st' = Inr tr'"
    and tr: "tr = (n, st') # tr'"
    by (auto split: sum.splits)
  from Cons.prems(1,2) x s have p: "P st'" by auto
  from Cons.prems(1) have "\<forall>(n, s) \<in> set steps. \<forall>st st'. P st \<longrightarrow> s st = Inr st' \<longrightarrow> P st'" by auto
  from Cons.IH[OF this p r] p show ?case unfolding tr by simp
qed

lemma required_step_custom:
  "customErrorMessage field \<noteq> [] \<Longrightarrow>
   errorMessage (required_step V field st) = errorMessage st"
  by (simp add: required_step_def assign_custom)

lemma pattern_step_custom:
  assumes "customErrorMessage field \<noteq> []"
  shows "case pattern_step H V field st of Inl e \<Rightarrow> True
         | Inr st' \<Rightarrow> errorMessage st' = errorMessage st"
  using assms
  by (simp add: pattern_step_def assign_custom split: sum.split)

lemma length_steps_custom:
  assumes "customErrorMessage field \<noteq> []"
  shows "errorMessage (min_step V field st) = errorMessage st"
    and "errorMessage (max_step V field st) = errorMessage st"
    and "errorMessage (range_step V field st) = errorMessage st"
  using assms
  by (simp_all add: min_step_def max_step_def range_step_def assign_custom
      split: option.split prod.split)

lemma rule_step_custom:
  assumes "customErrorMessage field \<noteq> []" "rule_step H V field rule st = Inr st'"
  shows "errorMessage st' = errorMessage st"
proof -
  have 1: "predicate_rule V field rule p st = Inr st' \<Longrightarrow> errorMessage st' = errorMessage st"
    for p
    using assms(1) by (auto simp: predicate_rule_def assign_custom split: sum.splits)
  have 2: "equalTo_rule V field rule st = Inr st' \<Longrightarrow> errorMessage st' = errorMessage st"
    using assms(1)
    by (auto simp: equalTo_rule_def assign_custom split: sum.splits option.splits if_splits)
  have 3: "minlength_rule V field rule st = Inr st' \<Longrightarrow> errorMessage st' = errorMessage st"
    using assms(1)
    by (auto simp: minlength_rule_def assign_custom split: option.splits if_splits)
  have 4: "maxlength_rule V field rule st = Inr st' \<Longrightarrow> errorMessage st' = errorMessage st"
    using assms(1)
    by (auto simp: maxlength_rule_def assign_custom split: option.splits if_splits)
  have 5: "rangelength_rule V field rule st = Inr st' \<Longrightarrow> errorMessage st' = errorMessage st"
    using assms(1)
    by (auto simp: rangelength_rule_def assign_custom split: option.splits if_splits)
  from assms(2) 1 2 3 4 5 show ?thesis
    by (auto simp: rule_step_def split: if_splits rule_method.splits)
qed

lemma run_nonempty: "run steps st = Inr tr \<Longrightarrow> steps \<noteq> [] \<Longrightarrow> tr \<noteq> []"
  by (cases steps) (auto split: sum.splits)

lemma type_steps_special:
  assumes "special_type field"
  shows "\<exists>a. run (type_steps H V field) st = Inr [(StepType, a)]"
  using assms by (auto simp: special_type_def type_steps_def pure_def)

lemma type_steps_custom:
  assumes "customErrorMessage field \<noteq> []" "(n, s) \<in> set (type_steps H V field)" "s st = Inr st'"
  shows "errorMessage st' = errorMessage st"
proof (cases "special_type field")
  case True
  with assms show ?thesis
    by (auto simp: special_type_def type_steps_def pure_def assign_custom)
next
  case False
  from assms(2,3) length_steps_custom[OF assms(1)] show ?thesis
    unfolding type_steps_default[OF False] by (auto simp: pure_def)
qed

lemma block_steps_custom:
  assumes "customErrorMessage field \<noteq> []"
  shows "\<forall>(n, s) \<in> set (block_steps H V field). \<forall>st st'.
           errorMessage st = m \<longrightarrow> s st = Inr st' \<longrightarrow> errorMessage st' = m"
proof -
  have p: "pattern_step H V field st = Inr st' \<Longrightarrow> errorMessage st' = errorMessage st" for st st'
    using pattern_step_custom[OF assms, where H=H and V=V and st=st] by simp
  show ?thesis
    using type_steps_custom[OF assms] p rule_step_custom[OF assms]
    by (fastforce simp: block_steps_def)
qed

lemma trace_cases:
  assumes "validateField_trace H V field = Inr tr"
  obtains (skipped) "tr = [(StepInit, initial field), (StepRequired, required_step V field (initial field))]"
  | (special) a t2 where "isValid (required_step V field (initial field))"
      "tr = (StepInit, initial field) # (StepRequired, required_step V field (initial field))
            # (StepType, a) # t2"
      "successively frozen ((StepType, a) # t2)"
  | (default) t2 where "isValid (required_step V field (initial field))"
      "tr = (StepInit, initial field) # (StepRequired, required_step V field (initial field))
            # (StepMinLength, min_step V field (required_step V field (initial field)))
            # (StepMaxLength, max_step V field (min_step V field (required_step V field (initial field))))
            # (StepRangeLength, range_step V field (max_step V field (min_step V field
                  (required_step V field (initial field))))) # t2"
      "successively frozen ((StepRangeLength, range_step V field (max_step V field
            (min_step V field (required_step V field (initial field))))) # t2)"
proof (cases "isValid (required_step V field (initial field)) \<and> el_value field \<noteq> []")
  case False
  with assms have "tr = [(StepInit, initial field), (StepRequired, required_step V field (initial field))]"
    by (auto simp: validateField_trace_def Let_def)
  then show ?thesis by (rule skipped)
next
  case True
  let ?s1 = "required_step V field (initial field)"
  from True assms obtain tr' where tr': "run (block_steps H V field) ?s1 = Inr tr'"
    and tr: "tr = (StepInit, initial field) # (StepRequired, ?s1) # tr'"
    by (auto simp: validateField_trace_def Let_def split: sum.splits)
  from tr' obtain t1 t2 where t1: "run (type_steps H V field) ?s1 = Inr t1"
    and t2: "run (tail_steps H V field) (if t1 = [] then ?s1 else snd (last t1)) = Inr t2"
    and app: "tr' = t1 @ t2"
    by (auto simp: block_steps_tail run_append split: sum.splits)
  show ?thesis
  proof (cases "special_type field")
    case sp: True
    from type_steps_special[OF sp, of H V ?s1] t1 obtain a where a: "t1 = [(StepType, a)]" by auto
    with t2 have "run (tail_steps H V field) a = Inr t2" by simp
    from run_inert_frozen[OF tail_inert this] have "successively frozen ((StepType, a) # t2)" .
    with True tr app a show ?thesis by (intro special[of a t2]) simp_all
  next
    case False
    let ?a = "min_step V field ?s1"
    let ?b = "max_step V field ?a"
    let ?c = "range_step V field ?b"
    from t1 have a: "t1 = [(StepMinLength, ?a), (StepMaxLength, ?b), (StepRangeLength, ?c)]"
      by (simp add: type_steps_default[OF False] pure_def)
    with t2 have "run (tail_steps H V field) ?c = Inr t2" by simp
    from run_inert_frozen[OF tail_inert this]
    have "successively frozen ((StepRangeLength, ?c) # t2)" .
    with True tr app a show ?thesis by (intro default[of t2]) simp_all
  qed
qed

lemma frozen_chain_undisturbed: "successively frozen xs \<Longrightarrow> successively undisturbed xs"
  by (erule successively_mono) (rule frozen_undisturbed)

lemma initial_valid: "isValid (initial field)"
  by (simp add: initial_def)

lemma trace_invalid_persists:
  assumes "validateField_trace H V field = Inr tr"
  shows "(\<forall>x \<in> set tr. \<not> isValid (snd x) \<longrightarrow> \<not> isValid (snd (last tr)))
       \<and> successively undisturbed tr
       \<and> evaluate H V field = Inr (snd (last tr))"
proof (intro conjI)
  show "evaluate H V field = Inr (snd (last tr))" using assms by (simp add: evaluate_def)
  from assms show "successively undisturbed tr"
  proof (cases rule: trace_cases)
    case skipped
    then show ?thesis by (simp add: undisturbed_def initial_valid)
  next
    case (special a t2)
    from frozen_chain_undisturbed[OF special(3)] special(1,2) show ?thesis
      by (simp add: undisturbed_def initial_valid)
  next
    case (default t2)
    from frozen_chain_undisturbed[OF default(3)] default(1,2) show ?thesis
      by (simp add: undisturbed_def initial_valid)
  qed
  from assms show "\<forall>x \<in> set tr. \<not> isValid (snd x) \<longrightarrow> \<not> isValid (snd (last tr))"
  proof (cases rule: trace_cases)
    case skipped
    then show ?thesis by (auto simp: initial_valid)
  next
    case (special a t2)
    have chain: "\<not> isValid (snd (last ((StepType, a) # t2)))"
      if "x \<in> set ((StepType, a) # t2)" "\<not> isValid (snd x)" for x
      using frozen_last[OF special(3) that] that(2) by simp
    have l: "last tr = last ((StepType, a) # t2)" unfolding special(2) by simp
    show ?thesis
    proof (intro ballI impI)
      fix x assume x: "x \<in> set tr" "\<not> isValid (snd x)"
      from x(1) special(2) consider "x = (StepInit, initial field)"
        | "x = (StepRequired, required_step V field (initial field))"
        | "x \<in> set ((StepType, a) # t2)" by auto
      then show "\<not> isValid (snd (last tr))"
      proof cases
        case 1 with x(2) show ?thesis by (simp add: initial_valid)
      next
        case 2 with x(2) special(1) show ?thesis by simp
      next
        case 3 with x(2) chain l show ?thesis by simp
      qed
    qed
  next
    case (default t2)
    let ?s1 = "required_step V field (initial field)"
    let ?a = "min_step V field ?s1"
    let ?b = "max_step V field ?a"
    let ?c = "range_step V field ?b"
    have chain: "\<not> isValid (snd (last ((StepRangeLength, ?c) # t2)))"
      if "x \<in> set ((StepRangeLength, ?c) # t2)" "\<not> isValid (snd x)" for x
      using frozen_last[OF default(3) that] that(2) by simp
    have c: "\<not> isValid (snd (last ((StepRangeLength, ?c) # t2)))" if "\<not> isValid ?c"
      using chain[of "(StepRangeLength, ?c)"] that by simp
    have ab: "\<not> isValid ?c" if "\<not> isValid ?a \<or> \<not> isValid ?b"
      using length_block[OF default(1) that] .
    have l: "last tr = last ((StepRangeLength, ?c) # t2)" unfolding default(2) by simp
    show ?thesis
    proof (intro ballI impI)
      fix x assume x: "x \<in> set tr" "\<not> isValid (snd x)"
      from x(1) default(2) consider "x = (StepInit, initial field)" | "x = (StepRequired, ?s1)"
        | "x = (StepMinLength, ?a)" | "x = (StepMaxLength, ?b)"
        | "x \<in> set ((StepRangeLength, ?c) # t2)" by auto
      then show "\<not> isValid (snd (last tr))"
      proof cases
        case 1 with x(2) show ?thesis by (simp add: initial_valid)
      next
        case 2 with x(2) default(1) show ?thesis by simp
      next
        case 3 with x(2) ab c l show ?thesis by simp
      next
        case 4 with x(2) ab c l show ?thesis by simp
      next
        case 5 with x(2) chain l show ?thesis by simp
      qed
    qed
  qed
qed

lemma trace_custom_message:
  assumes "validateField_trace H V field = Inr tr" "customErrorMessage field \<noteq> []"
  shows "\<forall>x \<in> set tr. errorMessage (snd x) = customErrorMessage field"
proof -
  let ?s0 = "initial field"
  let ?s1 = "required_step V field ?s0"
  have e0: "errorMessage ?s0 = customErrorMessage field" by (simp add: initial_def)
  with required_step_custom[OF assms(2), of V ?s0]
  have e1: "errorMessage ?s1 = customErrorMessage field" by simp
  show ?thesis
  proof (cases "isValid ?s1 \<and> el_value field \<noteq> []")
    case False
    with assms(1) e0 e1 show ?thesis by (auto simp: validateField_trace_def Let_def)
  next
    case True
    with assms(1) obtain tr' where tr': "run (block_steps H V field) ?s1 = Inr tr'"
      and tr: "tr = (StepInit, ?s0) # (StepRequired, ?s1) # tr'"
      by (auto simp: validateField_trace_def Let_def split: sum.splits)
    from run_preserves[of "block_steps H V field"
        "\<lambda>st. errorMessage st = customErrorMessage field" ?s1 tr',
        OF block_steps_custom[OF assms(2)] e1 tr']
    show ?thesis using e0 e1 unfolding tr by auto
  qed
qed

text \<open>
  C1: as stated, no step overwrites a message set by an earlier failing step, and
  validity never comes back to true. For a text field with \<^verbatim>\<open>minlength="5"\<close>,
  \<^verbatim>\<open>maxlength="10"\<close> and the value \<^verbatim>\<open>ab\<close>, the minimum check fails and sets its
  message, the maximum check sets validity back to true, and the range check fails and
  replaces the message.
\<close>

theorem overwritten_message_counterexample:
  "validateField_trace example_host (example_validator [] [])
     (input ''text'' ''nick'' ''ab'' [(''minlength'', ''5''), (''maxlength'', ''10'')]) =
   Inr [(StepInit, \<lparr>isValid = True, errorMessage = [], calls = []\<rparr>),
        (StepRequired, \<lparr>isValid = True, errorMessage = [], calls = []\<rparr>),
        (StepMinLength, \<lparr>isValid = False, errorMessage = ''Please enter at least 5 characters.'',
           calls = [CallMinlength]\<rparr>),
        (StepMaxLength, \<lparr>isValid = True, errorMessage = ''Please enter at least 5 characters.'',
           calls = [CallMinlength, CallMaxlength]\<rparr>),
        (StepRangeLength, \<lparr>isValid = False,
           errorMessage = ''Please enter a value between 5 and 10 characters long'',
           calls = [CallMinlength, CallMaxlength, CallRangelength]\<rparr>),
        (StepPattern, \<lparr>isValid = False,
           errorMessage = ''Please enter a value between 5 and 10 characters long'',
           calls = [CallMinlength, CallMaxlength, CallRangelength]\<rparr>)]"
  by (simp add: step_eval field_eval length_eval regex_eval)

text \<open>
  C1, amended: in every evaluation that returns, the returned verdict is invalid whenever
  validity was false after any step; every step other than the maximum-length and the
  range check of the length block, when reached with validity false, leaves validity and
  message as they were; and when the field declares a custom message, the message is
  that one after every step. (In the length block the maximum check assigns validity
  anew and the range check, run when both bounds are usable, replaces the message.)
\<close>

theorem verdict_stays_invalid:
  assumes "validateField_trace H V field = Inr tr"
  shows "(\<forall>x \<in> set tr. \<not> isValid (snd x) \<longrightarrow> \<not> isValid (snd (last tr)))
       \<and> successively undisturbed tr
       \<and> (customErrorMessage field \<noteq> [] \<longrightarrow>
            (\<forall>x \<in> set tr. errorMessage (snd x) = customErrorMessage field))
       \<and> evaluate H V field = Inr (snd (last tr))"
  using trace_invalid_persists[OF assms] trace_custom_message[OF assms] by blast

theorem verdict_stays_invalid_witness:
  "validateField_trace example_host (example_validator [] [])
     (input ''text'' ''nick'' ''ab'' [(''minlength'', ''5'')]) =
   Inr [(StepInit, \<lparr>isValid = True, errorMessage = [], calls = []\<rparr>),
        (StepRequired, \<lparr>isValid = True, errorMessage = [], calls = []\<rparr>),
        (StepMinLength, \<lparr>isValid = False, errorMessage = ''Please enter at least 5 characters.'',
           calls = [CallMinlength]\<rparr>),
        (StepMaxLength, \<lparr>isValid = False, errorMessage = ''Please enter at least 5 characters.'',
           calls = [CallMinlength]\<rparr>),
        (StepRangeLength, \<lparr>isValid = False, errorMessage = ''Please enter at least 5 characters.'',
           calls = [CallMinlength]\<rparr>),
        (StepPattern, \<lparr>isValid = False, errorMessage = ''Please enter at least 5 characters.'',
           calls = [CallMinlength]\<rparr>)]
   \<and> evaluate example_host (example_validator [] [])
        (input ''text'' ''nick'' ''ab'' [(''minlength'', ''5'')])
     = Inr \<lparr>isValid = False, errorMessage = ''Please enter at least 5 characters.'',
            calls = [CallMinlength]\<rparr>
   \<and> customErrorMessage (input ''text'' ''nick'' []
         [(''required'', []), (''data-error-message'', ''Tell us your nick.'')]) \<noteq> []
   \<and> validateField_trace example_host (example_validator [] [])
        (input ''text'' ''nick'' []
           [(''required'', []), (''data-error-message'', ''Tell us your nick.'')]) =
      Inr [(StepInit, \<lparr>isValid = True, errorMessage = ''Tell us your nick.'', calls = []\<rparr>),
           (StepRequired, \<lparr>isValid = False, errorMessage = ''Tell us your nick.'',
              calls = [CallNotEmpty]\<rparr>)]"
proof -
  let ?V = "example_validator [] []"
  let ?f = "input ''text'' ''nick'' ''ab'' [(''minlength'', ''5'')]"
  let ?g = "input ''text'' ''nick'' [] [(''required'', []), (''data-error-message'', ''Tell us your nick.'')]"
  have 1: "validateField_trace example_host ?V ?f =
   Inr [(StepInit, \<lparr>isValid = True, errorMessage = [], calls = []\<rparr>),
        (StepRequired, \<lparr>isValid = True, errorMessage = [], calls = []\<rparr>),
        (StepMinLength, \<lparr>isValid = False, errorMessage = ''Please enter at least 5 characters.'',
           calls = [CallMinlength]\<rparr>),
        (StepMaxLength, \<lparr>isValid = False, errorMessage = ''Please enter at least 5 characters.'',
           calls = [CallMinlength]\<rparr>),
        (StepRangeLength, \<lparr>isValid = False, errorMessage = ''Please enter at least 5 characters.'',
           calls = [CallMinlength]\<rparr>),
        (StepPattern, \<lparr>isValid = False, errorMessage = ''Please enter at least 5 characters.'',
           calls = [CallMinlength]\<rparr>)]"
    by (simp add: step_eval field_eval length_eval regex_eval)
  from verdict_stays_invalid [OF 1] have 2: "evaluate example_host ?V ?f
     = Inr \<lparr>isValid = False, errorMessage = ''Please enter at least 5 characters.'',
            calls = [CallMinlength]\<rparr>" by simp
  have 3: "validateField_trace example_host ?V ?g =
      Inr [(StepInit, \<lparr>isValid = True, errorMessage = ''Tell us your nick.'', calls = []\<rparr>),
           (StepRequired, \<lparr>isValid = False, errorMessage = ''Tell us your nick.'',
              calls = [CallNotEmpty]\<rparr>)]"
    by (simp add: step_eval field_eval length_eval regex_eval)
  have cg: "customErrorMessage ?g \<noteq> []" by (simp add: field_eval)
  from verdict_stays_invalid [OF 3] cg
  have "\<forall>x \<in> set [(StepInit, \<lparr>isValid = True, errorMessage = ''Tell us your nick.'', calls = []\<rparr>),
           (StepRequired, \<lparr>isValid = False, errorMessage = ''Tell us your nick.'',
              calls = [CallNotEmpty]\<rparr>)]. errorMessage (snd x) = customErrorMessage ?g"
    by blast
  from 1 2 cg 3 show ?thesis by (intro conjI)
qed

text \<open>
  C6: as stated, the message of a failed minimum-length check is the \<^verbatim>\<open>min\<close> variant
  exactly when the effective minimum came from the \<^verbatim>\<open>min\<close> attribute. For a text field
  with \<^verbatim>\<open>minlength="5"\<close>, \<^verbatim>\<open>min="3"\<close> and the value \<^verbatim>\<open>ab\<close>, the effective minimum
  is the one of \<^verbatim>\<open>minlength\<close>, and the message is the \<^verbatim>\<open>min\<close> variant.
\<close>

theorem length_message_counterexample:
  "minlength_attribute (input ''text'' ''nick'' ''ab'' [(''minlength'', ''5''), (''min'', ''3'')])
     = getAttribute (input ''text'' ''nick'' ''ab'' [(''minlength'', ''5''), (''min'', ''3'')])
         ''minlength''
   \<and> getAttribute (input ''text'' ''nick'' ''ab'' [(''minlength'', ''5''), (''min'', ''3'')])
         ''minlength'' = Some ''5''
   \<and> evaluate example_host (example_validator [] [])
        (input ''text'' ''nick'' ''ab'' [(''minlength'', ''5''), (''min'', ''3'')])
     = Inr \<lparr>isValid = False, errorMessage = ''Please enter a value at least 5.'',
            calls = [CallMinlength]\<rparr>
   \<and> replace (m_min messages) ''{0}'' ''5'' = ''Please enter a value at least 5.''
   \<and> replace (m_minlength messages) ''{0}'' ''5'' = ''Please enter at least 5 characters.''"
  by (simp add: step_eval field_eval length_eval regex_eval)

text \<open>
  C6, amended: for a field of a type without a check of its own, with a non-empty value
  that passed the required check and no custom message: when the minimum-length check
  fails and the field has no usable maximum, the resolved message is the \<^verbatim>\<open>min\<close>
  variant exactly when the field carries a non-empty \<^verbatim>\<open>min\<close> attribute (wherever the
  effective minimum came from) and the \<^verbatim>\<open>minlength\<close> variant otherwise, with \<^verbatim>\<open>{0}\<close>
  replaced by the effective minimum; likewise \<^verbatim>\<open>max\<close> and \<^verbatim>\<open>maxlength\<close> for a failed
  maximum check of a field with no usable minimum; and when both bounds are usable and
  the range check fails, the resolved message is the \<^verbatim>\<open>range\<close> variant if both
  \<^verbatim>\<open>min\<close> and \<^verbatim>\<open>max\<close> attributes are set and the \<^verbatim>\<open>rangelength\<close> variant otherwise.
\<close>

theorem length_message_variant:
  assumes "\<not> special_type field"
    and "isValid (required_step V field (initial field))" "el_value field \<noteq> []"
    and "customErrorMessage field = []"
  shows
   "(minlength_attribute field = Some mn \<and> usable (Some mn) \<and> \<not> usable (maxlength_attribute field)
       \<and> \<not> minlength V (el_value field) field (parseInt mn)
     \<longrightarrow> (\<exists>st. evaluate H V field = Inr st \<and> \<not> isValid st \<and>
            errorMessage st = replace (if attribute_set field ''min'' then m_min (v_messages V)
                                       else m_minlength (v_messages V)) ''{0}'' mn))
  \<and> (maxlength_attribute field = Some mx \<and> usable (Some mx) \<and> \<not> usable (minlength_attribute field)
       \<and> \<not> maxlength V (el_value field) field (parseInt mx)
     \<longrightarrow> (\<exists>st. evaluate H V field = Inr st \<and> \<not> isValid st \<and>
            errorMessage st = replace (if attribute_set field ''max'' then m_max (v_messages V)
                                       else m_maxlength (v_messages V)) ''{0}'' mx))
  \<and> (minlength_attribute field = Some mn \<and> usable (Some mn)
       \<and> maxlength_attribute field = Some mx \<and> usable (Some mx)
       \<and> \<not> rangelength V (el_value field) field (parseInt mn, parseInt mx)
     \<longrightarrow> (\<exists>st. evaluate H V field = Inr st \<and> \<not> isValid st \<and>
            errorMessage st =
              replace (replace (if attribute_set field ''max'' \<and> attribute_set field ''min''
                                then m_range (v_messages V) else m_rangelength (v_messages V))
                         ''{0}'' mn) ''{1}'' mx))"
proof (intro conjI impI)
  let ?s1 = "required_step V field (initial field)"
  note ev = evaluate_default_invalid[OF assms(1-3), of H]
  {
    assume h: "minlength_attribute field = Some mn \<and> usable (Some mn)
       \<and> \<not> usable (maxlength_attribute field)
       \<and> \<not> minlength V (el_value field) field (parseInt mn)"
    then have r: "range_step V field (max_step V field (min_step V field ?s1)) = min_step V field ?s1"
      by (simp add: not_usable_max not_usable_range)
    from h assms(4) have m: "\<not> isValid (min_step V field ?s1)"
      "errorMessage (min_step V field ?s1) =
         replace (if attribute_set field ''min'' then m_min (v_messages V)
                  else m_minlength (v_messages V)) ''{0}'' mn"
      by (simp_all add: min_step_def assign_def)
    from ev r m show "\<exists>st. evaluate H V field = Inr st \<and> \<not> isValid st \<and>
            errorMessage st = replace (if attribute_set field ''min'' then m_min (v_messages V)
                                       else m_minlength (v_messages V)) ''{0}'' mn"
      by simp
  }
  {
    assume h: "maxlength_attribute field = Some mx \<and> usable (Some mx)
       \<and> \<not> usable (minlength_attribute field)
       \<and> \<not> maxlength V (el_value field) field (parseInt mx)"
    then have r: "range_step V field (max_step V field (min_step V field ?s1)) = max_step V field ?s1"
      by (simp add: not_usable_min not_usable_range)
    from h assms(4) have m: "\<not> isValid (max_step V field ?s1)"
      "errorMessage (max_step V field ?s1) =
         replace (if attribute_set field ''max'' then m_max (v_messages V)
                  else m_maxlength (v_messages V)) ''{0}'' mx"
      by (simp_all add: max_step_def assign_def)
    from ev r m show "\<exists>st. evaluate H V field = Inr st \<and> \<not> isValid st \<and>
            errorMessage st = replace (if attribute_set field ''max'' then m_max (v_messages V)
                                       else m_maxlength (v_messages V)) ''{0}'' mx"
      by simp
  }
  {
    assume h: "minlength_attribute field = Some mn \<and> usable (Some mn)
       \<and> maxlength_attribute field = Some mx \<and> usable (Some mx)
       \<and> \<not> rangelength V (el_value field) field (parseInt mn, parseInt mx)"
    let ?c = "range_step V field (max_step V field (min_step V field ?s1))"
    from h assms(4) have m: "\<not> isValid ?c"
      "errorMessage ?c =
         replace (replace (if attribute_set field ''max'' \<and> attribute_set field ''min''
                                then m_range (v_messages V) else m_rangelength (v_messages V))
                         ''{0}'' mn) ''{1}'' mx"
      by (simp_all add: range_step_def assign_def)
    from ev m show "\<exists>st. evaluate H V field = Inr st \<and> \<not> isValid st \<and>
            errorMessage st =
              replace (replace (if attribute_set field ''max'' \<and> attribute_set field ''min''
                                then m_range (v_messages V) else m_rangelength (v_messages V))
                         ''{0}'' mn) ''{1}'' mx"
      by simp
  }
qed

theorem length_message_variant_witness:
  "\<not> special_type (input ''text'' ''nick'' ''ab'' [(''min'', ''5'')])
   \<and> isValid (required_step (example_validator [] [])
        (input ''text'' ''nick'' ''ab'' [(''min'', ''5'')])
        (initial (input ''text'' ''nick'' ''ab'' [(''min'', ''5'')])))
   \<and> el_value (input ''text'' ''nick'' ''ab'' [(''min'', ''5'')]) \<noteq> []
   \<and> customErrorMessage (input ''text'' ''nick'' ''ab'' [(''min'', ''5'')]) = []
   \<and> minlength_attribute (input ''text'' ''nick'' ''ab'' [(''min'', ''5'')]) = Some ''5''
   \<and> usable (Some ''5'')
   \<and> \<not> usable (maxlength_attribute (input ''text'' ''nick'' ''ab'' [(''min'', ''5'')]))
   \<and> \<not> minlength (example_validator [] []) ''ab''
        (input ''text'' ''nick'' ''ab'' [(''min'', ''5'')]) (parseInt ''5'')
   \<and> (\<exists>st. evaluate example_host (example_validator [] [])
              (input ''text'' ''nick'' ''ab'' [(''min'', ''5'')]) = Inr st
          \<and> \<not> isValid st \<and> errorMessage st = ''Please enter a value at least 5.'')
   \<and> maxlength_attribute (input ''text'' ''nick'' ''abcdefgh'' [(''maxlength'', ''3'')]) = Some ''3''
   \<and> usable (Some ''3'')
   \<and> \<not> usable (minlength_attribute (input ''text'' ''nick'' ''abcdefgh'' [(''maxlength'', ''3'')]))
   \<and> \<not> maxlength (example_validator [] []) ''abcdefgh''
        (input ''text'' ''nick'' ''abcdefgh'' [(''maxlength'', ''3'')]) (parseInt ''3'')
   \<and> (\<exists>st. evaluate example_host (example_validator [] [])
              (input ''text'' ''nick'' ''abcdefgh'' [(''maxlength'', ''3'')]) = Inr st
          \<and> \<not> isValid st \<and> errorMessage st = ''Please enter no more than 3 characters.'')
   \<and> minlength_attribute (input ''text'' ''nick'' ''ab'' [(''min'', ''3''), (''max'', ''7'')])
        = Some ''3''
   \<and> maxlength_attribute (input ''text'' ''nick'' ''ab'' [(''min'', ''3''), (''max'', ''7'')])
        = Some ''7''
   \<and> usable (Some ''7'')
   \<and> \<not> rangelength (example_validator [] []) ''ab''
        (input ''text'' ''nick'' ''ab'' [(''min'', ''3''), (''max'', ''7'')])
        (parseInt ''3'', parseInt ''7'')
   \<and> (\<exists>st. evaluate example_host (example_validator [] [])
              (input ''text'' ''nick'' ''ab'' [(''min'', ''3''), (''max'', ''7'')]) = Inr st
          \<and> \<not> isValid st \<and> errorMessage st = ''Please enter a value between 3 and 7'')"
proof -
  let ?V = "example_validator [] []"
  let ?a = "input ''text'' ''nick'' ''ab'' [(''min'', ''5'')]"
  let ?b = "input ''text'' ''nick'' ''abcdefgh'' [(''maxlength'', ''3'')]"
  let ?c = "input ''text'' ''nick'' ''ab'' [(''min'', ''3''), (''max'', ''7'')]"
  have u5: "usable (Some ''5'')" and u3: "usable (Some ''3'')" and u7: "usable (Some ''7'')"
    by (simp_all add: usable_def validDigits_def regex_eval)
  have a1: "\<not> special_type ?a" and a2: "isValid (required_step ?V ?a (initial ?a))"
    and a3: "el_value ?a \<noteq> []" and a4: "customErrorMessage ?a = []"
    and a5: "minlength_attribute ?a = Some ''5''"
    and a6: "\<not> usable (maxlength_attribute ?a)"
    and a7: "\<not> minlength ?V ''ab'' ?a (parseInt ''5'')"
    by (simp_all add: step_eval field_eval length_eval regex_eval)
  have b1: "\<not> special_type ?b" and b2: "isValid (required_step ?V ?b (initial ?b))"
    and b3: "el_value ?b \<noteq> []" and b4: "customErrorMessage ?b = []"
    and b5: "maxlength_attribute ?b = Some ''3''"
    and b6: "\<not> usable (minlength_attribute ?b)"
    and b7: "\<not> maxlength ?V ''abcdefgh'' ?b (parseInt ''3'')"
    by (simp_all add: step_eval field_eval length_eval regex_eval)
  have c1: "\<not> special_type ?c" and c2: "isValid (required_step ?V ?c (initial ?c))"
    and c3: "el_value ?c \<noteq> []" and c4: "customErrorMessage ?c = []"
    and c5: "minlength_attribute ?c = Some ''3''"
    and c6: "maxlength_attribute ?c = Some ''7''"
    and c7: "\<not> rangelength ?V ''ab'' ?c (parseInt ''3'', parseInt ''7'')"
    by (simp_all add: step_eval field_eval length_eval regex_eval)
  have va: "el_value ?a = ''ab''" and vb: "el_value ?b = ''abcdefgh''" and vc: "el_value ?c = ''ab''"
    by (simp_all add: input_def)
  have sa: "attribute_set ?a ''min''" and sb: "\<not> attribute_set ?b ''max''"
    and sc: "attribute_set ?c ''max'' \<and> attribute_set ?c ''min''"
    by (simp_all add: field_eval)
  have ma: "replace (m_min (v_messages ?V)) ''{0}'' ''5'' = ''Please enter a value at least 5.''"
    and mb: "replace (m_maxlength (v_messages ?V)) ''{0}'' ''3''
             = ''Please enter no more than 3 characters.''"
    and mc: "replace (replace (m_range (v_messages ?V)) ''{0}'' ''3'') ''{1}'' ''7''
             = ''Please enter a value between 3 and 7''"
    by (simp_all add: example_validator_def messages_def)
  from length_message_variant [OF a1 a2 a3 a4, of "''5''" example_host, THEN conjunct1]
    a5 u5 a6 a7 va sa ma
  have ra: "\<exists>st. evaluate example_host ?V ?a = Inr st \<and> \<not> isValid st
              \<and> errorMessage st = ''Please enter a value at least 5.''"
    by simp
  from length_message_variant [OF b1 b2 b3 b4, of _ example_host "''3''",
      THEN conjunct2, THEN conjunct1]
    b5 u3 b6 b7 vb sb mb
  have rb: "\<exists>st. evaluate example_host ?V ?b = Inr st \<and> \<not> isValid st
              \<and> errorMessage st = ''Please enter no more than 3 characters.''"
    by simp
  from length_message_variant [OF c1 c2 c3 c4, of "''3''" example_host "''7''",
      THEN conjunct2, THEN conjunct2]
    c5 c6 u3 u7 c7 vc sc mc
  have rc: "\<exists>st. evaluate example_host ?V ?c = Inr st \<and> \<not> isValid st
              \<and> errorMessage st = ''Please enter a value between 3 and 7''"
    by simp
  from a1 a2 a3 a4 a5 u5 a6 a7 ra b5 u3 b6 b7 rb c5 c6 u7 c7 rc show ?thesis
    by (intro conjI)
qed

text \<open>
  Declared rules that are the identity on every verdict can be taken out of the
  configuration: the verdict of the field, and what \<open>validateField\<close> returns or raises,
  stay the same.
\<close>

lemma unresolved_rule_step:
  assumes "unresolved_equalTo V rule"
  shows "rule_step H V field rule st = Inr st"
  using assms
  by (auto simp: unresolved_equalTo_def rule_step_def equalTo_rule_def split: option.splits)

lemma final_run_append:
  "final st (run (xs @ ys) st) =
     (case final st (run xs st) of Inl e \<Rightarrow> Inl e | Inr st' \<Rightarrow> final st' (run ys st'))"
  by (simp add: run_append final_def split: sum.splits)

lemma final_run_skip:
  assumes "\<And>r st. P r \<Longrightarrow> g r st = Inr st"
  shows "final st (run (map (\<lambda>r. (StepRule, g r)) (filter (\<lambda>r. \<not> P r) rs)) st) =
         final st (run (map (\<lambda>r. (StepRule, g r)) rs) st)"
proof (induction rs arbitrary: st)
  case Nil
  then show ?case by simp
next
  case (Cons r rs)
  show ?case
  proof (cases "P r")
    case True
    with assms have "g r st = Inr st" by simp
    with True Cons.IH[of st] show ?thesis
      by (auto simp: final_def split: sum.splits)
  next
    case False
    show ?thesis
    proof (cases "g r st")
      case (Inl e)
      with False show ?thesis by (simp add: final_def)
    next
      case (Inr st')
      with False Cons.IH[of st'] show ?thesis
        by (auto simp: final_def split: sum.splits)
    qed
  qed
qed

lemma evaluate_final:
  "evaluate H V field =
     (if isValid (required_step V field (initial field)) \<and> el_value field \<noteq> []
      then final (required_step V field (initial field))
             (run (block_steps H V field) (required_step V field (initial field)))
      else Inr (required_step V field (initial field)))"
  by (simp add: evaluate_def validateField_trace_def Let_def final_def split: sum.splits)

lemma without_rules_simps:
  "v_form (without_rules P V) = v_form V"
  "v_messages (without_rules P V) = v_messages V"
  "v_fields (without_rules P V) = v_fields V"
  by (simp_all add: without_rules_def)

lemma concat_map_filter:
  assumes "\<And>x. f (g x) = filter Q (f x)"
  shows "concat (map f (map g xs)) = filter Q (concat (map f xs))"
  by (induction xs) (simp_all add: assms)

lemma rules_of_filtered:
  fixes fieldSetting :: FormField
  shows
  "(if ff_name (fieldSetting\<lparr>ff_rules :=
                  map_option (filter (\<lambda>rule. \<not> P rule)) (ff_rules fieldSetting)\<rparr>) = Some name
    then (case ff_rules (fieldSetting\<lparr>ff_rules :=
                  map_option (filter (\<lambda>rule. \<not> P rule)) (ff_rules fieldSetting)\<rparr>) of
            None \<Rightarrow> [] | Some rules \<Rightarrow> rules)
    else [])
   = filter (\<lambda>r. \<not> P r)
       (if ff_name fieldSetting = Some name
        then (case ff_rules fieldSetting of None \<Rightarrow> [] | Some rules \<Rightarrow> rules)
        else [])"
proof (cases "ff_name fieldSetting = Some name")
  case True
  then show ?thesis by (cases "ff_rules fieldSetting") simp_all
next
  case False
  then show ?thesis by simp
qed

lemma concat_rules_filter:
  fixes fss :: "FormField list"
  shows
  "concat (map (\<lambda>fieldSetting.
              if ff_name fieldSetting = Some name then
                (case ff_rules fieldSetting of None \<Rightarrow> [] | Some rules \<Rightarrow> rules)
              else [])
            (map (\<lambda>fieldSetting. fieldSetting\<lparr>ff_rules :=
                     map_option (filter (\<lambda>rule. \<not> P rule)) (ff_rules fieldSetting)\<rparr>) fss))
   = filter (\<lambda>r. \<not> P r) (concat (map (\<lambda>fieldSetting.
              if ff_name fieldSetting = Some name then
                (case ff_rules fieldSetting of None \<Rightarrow> [] | Some rules \<Rightarrow> rules)
              else []) fss))"
  by (rule concat_map_filter) (rule rules_of_filtered)

lemma declared_rules_without:
  "declared_rules (without_rules P V) field = filter (\<lambda>r. \<not> P r) (declared_rules V field)"
proof (cases "v_settings V")
  case None
  then show ?thesis by (simp add: declared_rules_def without_rules_def)
next
  case (Some s)
  then show ?thesis
    by (cases "s_fields s")
       (simp_all add: declared_rules_def without_rules_def concat_rules_filter del: map_map)
qed

lemma findByName_without: "findByName (without_rules P V) = findByName V"
  unfolding findByName_def without_rules_simps ..

lemma getLength_without: "getLength (without_rules P V) = getLength V"
  unfolding getLength_def findByName_without ..

lemma length_without:
  "minlength (without_rules P V) = minlength V"
  "maxlength (without_rules P V) = maxlength V"
  "rangelength (without_rules P V) = rangelength V"
  unfolding minlength_def maxlength_def rangelength_def getLength_without by (rule refl)+

lemma validateCheckboxRadio_without:
  "validateCheckboxRadio (without_rules P V) = validateCheckboxRadio V"
  unfolding validateCheckboxRadio_def without_rules_simps ..

lemma required_step_without: "required_step (without_rules P V) = required_step V"
  unfolding required_step_def validateCheckboxRadio_without without_rules_simps ..

lemma length_steps_without:
  "min_step (without_rules P V) = min_step V"
  "max_step (without_rules P V) = max_step V"
  "range_step (without_rules P V) = range_step V"
  unfolding min_step_def max_step_def range_step_def length_without without_rules_simps
  by (rule refl)+

lemma type_steps_without: "type_steps H (without_rules P V) = type_steps H V"
  unfolding type_steps_def length_steps_without without_rules_simps ..

lemma pattern_step_without: "pattern_step H (without_rules P V) = pattern_step H V"
  unfolding pattern_step_def without_rules_simps ..

lemma rule_step_without: "rule_step H (without_rules P V) = rule_step H V"
  unfolding rule_step_def predicate_rule_def equalTo_rule_def minlength_rule_def
    maxlength_rule_def rangelength_rule_def length_without without_rules_simps ..

lemma block_steps_split:
  "block_steps H V field =
     (type_steps H V field @ [(StepPattern, pattern_step H V field)]) @
     map (\<lambda>rule. (StepRule, rule_step H V field rule)) (declared_rules V field)"
  by (simp add: block_steps_def)

lemma evaluate_without:
  assumes "\<And>r. P r \<Longrightarrow> unresolved_equalTo V r"
  shows "evaluate H (without_rules P V) field = evaluate H V field"
proof -
  have skip: "\<And>r st. P r \<Longrightarrow> rule_step H V field r st = Inr st"
    using assms unresolved_rule_step by blast
  have "final st (run (block_steps H (without_rules P V) field) st) =
        final st (run (block_steps H V field) st)" for st
    unfolding block_steps_split final_run_append type_steps_without pattern_step_without
      rule_step_without declared_rules_without
    by (simp add: final_run_skip[of P "rule_step H V field", OF skip] cong: sum.case_cong)
  then show ?thesis
    by (simp add: evaluate_final required_step_without)
qed

lemma errorFieldClass_without: "errorFieldClass (without_rules P V) = errorFieldClass V"
  by (cases "v_settings V") (simp_all add: errorFieldClass_def without_rules_def)

lemma required_query_without: "required_query (without_rules P V) = required_query V"
  unfolding required_query_def validateCheckboxRadio_without errorFieldClass_without
    without_rules_simps ..

lemma placeErrorHelp_fields:
  "placeErrorHelp H (s\<lparr>s_fields := x\<rparr>) field page = placeErrorHelp H s field page"
  by (simp add: placeErrorHelp_def errorHelpItem_def cong: sum.case_cong option.case_cong)

lemma errorHelp_without: "errorHelp H (without_rules P V) field page = errorHelp H V field page"
  by (cases "v_settings V")
     (simp_all add: errorHelp_def without_rules_def placeErrorHelp_fields
        cong: sum.case_cong option.case_cong prod.case_cong)

lemma display_without: "display H (without_rules P V) = display H V"
  unfolding display_def errorHelp_without errorFieldClass_without ..

lemma validateField_without:
  assumes "\<And>r. P r \<Longrightarrow> unresolved_equalTo V r"
  shows "validateField H (without_rules P V) field doc = validateField H V field doc"
  unfolding validateField_def required_query_without display_without
  by (simp add: evaluate_without[OF assms] cong: sum.case_cong)

text \<open>Evaluation of the error node phase on the examples, and when it returns.\<close>

lemmas node_eval = validateField_def required_query_def display_def errorHelp_def
  document_querySelector_def placeErrorHelp_def errorHelpItem_def errorHelpId_def
  errorFieldClass_def example_host_def empty_document_def is_alnum_hyphen_def

lemma validateField_result:
  assumes "validateField H V f doc = Inr (b, doc')"
  shows "(\<exists>st. evaluate H V f = Inr st \<and> b = isValid st) \<and> visited doc' = visited doc @ [f]"
  using assms by (auto simp: validateField_def split: sum.splits)

lemma display_returns:
  assumes "Selector_parse H (''#'' @ errorHelpId field) = Inr q"
    and "errorFieldClass V = Inr ()"
    and "\<And>s. v_settings V = Some s \<Longrightarrow>
           s_errorPlacement s = None \<and> (\<exists>item. errorHelpItem H s field = Inr item)"
  shows "\<exists>doc'. display H V field st doc = Inr doc'"
proof (cases "v_settings V")
  case None
  with assms(1,2) show ?thesis
    by (auto simp: display_def errorHelp_def document_querySelector_def split: option.splits)
next
  case (Some s)
  from assms(3)[OF Some] obtain item where "s_errorPlacement s = None"
    "errorHelpItem H s field = Inr item" by blast
  with Some assms(1,2) show ?thesis
    by (auto simp: display_def errorHelp_def document_querySelector_def placeErrorHelp_def
        split: option.splits)
qed

lemma validateField_returns:
  assumes "evaluate H V field = Inr st" "required_query V field = Inr ()"
    and "Selector_parse H (''#'' @ errorHelpId field) = Inr q"
    and "errorFieldClass V = Inr ()"
    and "\<And>s. v_settings V = Some s \<Longrightarrow>
           s_errorPlacement s = None \<and> (\<exists>item. errorHelpItem H s field = Inr item)"
  shows "\<exists>doc'. validateField H V field doc = Inr (isValid st, doc')"
proof -
  from display_returns[OF assms(3,4,5), of st doc]
  obtain doc' where "display H V field st doc = Inr doc'" by blast
  with assms(1,2) show ?thesis by (simp add: validateField_def)
qed

text \<open>
  C10: a field that is not marked required and whose value is the empty string gets a valid
  verdict, and nothing is evaluated for it: no check is called (the list of calls is
  empty), whatever the host, the settings and the declared rules are. \<^verbatim>\<open>validateField\<close>
  then returns true whenever the error node phase returns, and raises what that phase
  raises: the selector \<^verbatim>\<open>'#' + errorHelpId\<close> is built from the \<^verbatim>\<open>id\<close> or name as it is
  (\<^verbatim>\<open>escapeCssMeta\<close>, which \<^verbatim>\<open>findByName\<close> applies to a name, is not applied here), so that
  on a field named \<^verbatim>\<open>tags[]\<close> the call ends with a \<^verbatim>\<open>SyntaxError\<close> instead of
  returning true.
\<close>

theorem optional_empty_field:
  assumes "\<not> hasAttribute field ''required''" "el_value field = []"
  shows "evaluate H V field =
           Inr \<lparr>isValid = True, errorMessage = customErrorMessage field, calls = []\<rparr>
       \<and> validateField H V field doc =
           (case display H V field
                   \<lparr>isValid = True, errorMessage = customErrorMessage field, calls = []\<rparr> doc of
              Inl e \<Rightarrow> Inl e
            | Inr doc' \<Rightarrow> Inr (True, doc'\<lparr>visited := visited doc @ [field]\<rparr>))
       \<and> (\<forall>e. Selector_parse H (''#'' @ errorHelpId field) = Inl e \<longrightarrow>
             validateField H V field doc = Inl e)"
proof -
  from trace_not_entered[OF assms, of H V]
  have ev: "evaluate H V field =
      Inr \<lparr>isValid = True, errorMessage = customErrorMessage field, calls = []\<rparr>"
    by (simp add: evaluate_def initial_def)
  from assms(1) have rq: "required_query V field = Inr ()"
    by (simp add: required_query_def)
  from ev rq have vf: "validateField H V field doc =
           (case display H V field
                   \<lparr>isValid = True, errorMessage = customErrorMessage field, calls = []\<rparr> doc of
              Inl e \<Rightarrow> Inl e
            | Inr doc' \<Rightarrow> Inr (True, doc'\<lparr>visited := visited doc @ [field]\<rparr>))"
    by (simp add: validateField_def split: sum.splits)
  have bad: "\<forall>e. Selector_parse H (''#'' @ errorHelpId field) = Inl e \<longrightarrow>
             validateField H V field doc = Inl e"
    unfolding vf by (simp add: display_def errorHelp_def document_querySelector_def)
  from ev vf bad show ?thesis by (intro conjI)
qed

theorem optional_empty_field_witness:
  "\<not> hasAttribute (input ''text'' ''tags[]'' [] []) ''required''
   \<and> el_value (input ''text'' ''tags[]'' [] []) = []
   \<and> evaluate example_host (example_validator [] []) (input ''text'' ''tags[]'' [] [])
      = Inr \<lparr>isValid = True, errorMessage = [], calls = []\<rparr>
   \<and> Selector_parse example_host (''#'' @ errorHelpId (input ''text'' ''tags[]'' [] []))
      = Inl SyntaxError
   \<and> validateField example_host (example_validator [] []) (input ''text'' ''tags[]'' [] [])
        empty_document = Inl SyntaxError
   \<and> \<not> hasAttribute ((input ''text'' ''nick'' [] [(''minlength'', ''5'')])\<lparr>el_pattern := Some ''[''\<rparr>) ''required''
   \<and> el_value ((input ''text'' ''nick'' [] [(''minlength'', ''5'')])\<lparr>el_pattern := Some ''[''\<rparr>) = []
   \<and> evaluate example_host
        (example_validator [\<lparr>ff_name = Some ''nick'', ff_rules = Some [throwing_rule]\<rparr>] [])
        ((input ''text'' ''nick'' [] [(''minlength'', ''5'')])\<lparr>el_pattern := Some ''[''\<rparr>)
      = Inr \<lparr>isValid = True, errorMessage = [], calls = []\<rparr>
   \<and> validateField example_host
        (example_validator [\<lparr>ff_name = Some ''nick'', ff_rules = Some [throwing_rule]\<rparr>] [])
        ((input ''text'' ''nick'' [] [(''minlength'', ''5'')])\<lparr>el_pattern := Some ''[''\<rparr>)
        empty_document
      = Inr (True,
          \<lparr>nodes = [\<lparr>n_tag = ''p'', n_id = ''nick-error'', n_class = ''error'', n_text = [],
                      n_display = ''none''\<rparr>],
           visited = [(input ''text'' ''nick'' [] [(''minlength'', ''5'')])\<lparr>el_pattern := Some ''[''\<rparr>]\<rparr>)"
proof -
  let ?t = "input ''text'' ''tags[]'' [] []"
  let ?U = "example_validator [] []"
  let ?f = "(input ''text'' ''nick'' [] [(''minlength'', ''5'')])\<lparr>el_pattern := Some ''[''\<rparr>"
  let ?V = "example_validator [\<lparr>ff_name = Some ''nick'', ff_rules = Some [throwing_rule]\<rparr>] []"
  have ta: "\<not> hasAttribute ?t ''required''" by (simp add: field_eval)
  have tb: "el_value ?t = []" by (simp add: input_def)
  have tc: "customErrorMessage ?t = []" by (simp add: field_eval)
  have td: "Selector_parse example_host (''#'' @ errorHelpId ?t) = Inl SyntaxError"
    by (simp add: example_host_def errorHelpId_def input_def is_alnum_hyphen_def regex_eval)
  note t = optional_empty_field [OF ta tb, of example_host ?U empty_document]
  from t[THEN conjunct1] tc
  have t1: "evaluate example_host ?U ?t = Inr \<lparr>isValid = True, errorMessage = [], calls = []\<rparr>"
    by simp
  from t[THEN conjunct2, THEN conjunct2] td
  have t2: "validateField example_host ?U ?t empty_document = Inl SyntaxError" by simp
  have a: "\<not> hasAttribute ?f ''required''" by (simp add: field_eval)
  have b: "el_value ?f = []" by (simp add: input_def)
  have c: "customErrorMessage ?f = []" by (simp add: field_eval)
  note n = optional_empty_field [OF a b, of example_host ?V empty_document]
  from n[THEN conjunct1] c
  have r1: "evaluate example_host ?V ?f = Inr \<lparr>isValid = True, errorMessage = [], calls = []\<rparr>"
    by simp
  have d: "display example_host ?V ?f \<lparr>isValid = True, errorMessage = [], calls = []\<rparr> empty_document
      = Inr \<lparr>nodes = [\<lparr>n_tag = ''p'', n_id = ''nick-error'', n_class = ''error'', n_text = [],
                      n_display = ''none''\<rparr>], visited = []\<rparr>"
    by (simp add: node_eval input_def example_validator_def example_settings_def regex_eval)
  from n[THEN conjunct2, THEN conjunct1] c d
  have r2: "validateField example_host ?V ?f empty_document
      = Inr (True,
          \<lparr>nodes = [\<lparr>n_tag = ''p'', n_id = ''nick-error'', n_class = ''error'', n_text = [],
                      n_display = ''none''\<rparr>], visited = [?f]\<rparr>)"
    by (simp add: empty_document_def)
  from ta tb t1 td t2 a b r1 r2 show ?thesis by (intro conjI)
qed

text \<open>
  C8: as stated, \<^verbatim>\<open>validateField\<close> does not throw on a field with an \<^verbatim>\<open>equalTo\<close> rule
  whose selector matches no element of the bound form. A field that declares such a rule
  and, after it, a predicate that raises: the \<^verbatim>\<open>equalTo\<close> rule leaves the verdict valid,
  so the predicate is called, and its exception leaves \<^verbatim>\<open>validateField\<close>.
\<close>

theorem unresolved_equalTo_counterexample:
  "declared_rules
     (example_validator
        [\<lparr>ff_name = Some ''confirm'', ff_rules = Some [equalTo_missing, throwing_rule]\<rparr>] [])
     (input ''password'' ''confirm'' ''secret'' []) = [equalTo_missing, throwing_rule]
   \<and> r_method equalTo_missing = Named ''equalTo''
   \<and> r_field equalTo_missing = Some ''#missing''
   \<and> querySelector example_form ''#missing'' = Inr None
   \<and> validateField example_host
        (example_validator
           [\<lparr>ff_name = Some ''confirm'', ff_rules = Some [equalTo_missing, throwing_rule]\<rparr>] [])
        (input ''password'' ''confirm'' ''secret'' []) empty_document
      = Inl (Thrown ''predicate'')"
  by (simp add: step_eval field_eval node_eval example_form_def equalTo_missing_def
      throwing_rule_def rule_step_def equalTo_rule_def predicate_rule_def)

text \<open>
  C8, amended: an \<^verbatim>\<open>equalTo\<close> rule whose selector matches no element of the bound form
  raises nothing and leaves the verdict (validity and message) as it was; the verdict of
  the field, and what \<^verbatim>\<open>validateField\<close> returns or raises, are those of the validator
  without such rules (what the other steps raise is raised with or without them).
\<close>

theorem equalTo_unresolved_target:
  "(r_method rule = Named ''equalTo'' \<and> r_field rule = Some selector \<and> v_form V = Some fm
      \<and> querySelector fm selector = Inr None
     \<longrightarrow> rule_step H V field rule st = Inr st)
   \<and> evaluate H (without_rules (unresolved_equalTo V) V) field = evaluate H V field
   \<and> validateField H (without_rules (unresolved_equalTo V) V) field doc
      = validateField H V field doc"
proof -
  have step: "r_method rule = Named ''equalTo'' \<and> r_field rule = Some selector \<and> v_form V = Some fm
      \<and> querySelector fm selector = Inr None
     \<longrightarrow> rule_step H V field rule st = Inr st"
    by (simp add: rule_step_def equalTo_rule_def)
  have ev: "evaluate H (without_rules (unresolved_equalTo V) V) field = evaluate H V field"
    by (rule evaluate_without)
  have vf: "validateField H (without_rules (unresolved_equalTo V) V) field doc
      = validateField H V field doc"
    by (rule validateField_without)
  from step ev vf show ?thesis by (intro conjI)
qed

theorem equalTo_unresolved_target_witness:
  "r_method equalTo_missing = Named ''equalTo'' \<and> r_field equalTo_missing = Some ''#missing''
   \<and> v_form (example_validator
         [\<lparr>ff_name = Some ''confirm'', ff_rules = Some [equalTo_missing]\<rparr>] []) = Some example_form
   \<and> querySelector example_form ''#missing'' = Inr None
   \<and> rule_step example_host
        (example_validator [\<lparr>ff_name = Some ''confirm'', ff_rules = Some [equalTo_missing]\<rparr>] [])
        (input ''password'' ''confirm'' ''secret'' []) equalTo_missing
        (initial (input ''password'' ''confirm'' ''secret'' []))
      = Inr (initial (input ''password'' ''confirm'' ''secret'' []))
   \<and> declared_rules
        (example_validator [\<lparr>ff_name = Some ''confirm'', ff_rules = Some [equalTo_missing]\<rparr>] [])
        (input ''password'' ''confirm'' ''secret'' []) = [equalTo_missing]
   \<and> declared_rules
        (without_rules
           (unresolved_equalTo (example_validator
              [\<lparr>ff_name = Some ''confirm'', ff_rules = Some [equalTo_missing]\<rparr>] []))
           (example_validator [\<lparr>ff_name = Some ''confirm'', ff_rules = Some [equalTo_missing]\<rparr>] []))
        (input ''password'' ''confirm'' ''secret'' []) = []
   \<and> validateField example_host
        (example_validator [\<lparr>ff_name = Some ''confirm'', ff_rules = Some [equalTo_missing]\<rparr>] [])
        (input ''password'' ''confirm'' ''secret'' []) empty_document
      = Inr (True,
          \<lparr>nodes = [\<lparr>n_tag = ''p'', n_id = ''confirm-error'', n_class = ''error'', n_text = [],
                      n_display = ''none''\<rparr>],
           visited = [input ''password'' ''confirm'' ''secret'' []]\<rparr>)
   \<and> validateField example_host
        (without_rules
           (unresolved_equalTo (example_validator
              [\<lparr>ff_name = Some ''confirm'', ff_rules = Some [equalTo_missing]\<rparr>] []))
           (example_validator [\<lparr>ff_name = Some ''confirm'', ff_rules = Some [equalTo_missing]\<rparr>] []))
        (input ''password'' ''confirm'' ''secret'' []) empty_document
      = Inr (True,
          \<lparr>nodes = [\<lparr>n_tag = ''p'', n_id = ''confirm-error'', n_class = ''error'', n_text = [],
                      n_display = ''none''\<rparr>],
           visited = [input ''password'' ''confirm'' ''secret'' []]\<rparr>)"
proof -
  let ?V = "example_validator [\<lparr>ff_name = Some ''confirm'', ff_rules = Some [equalTo_missing]\<rparr>] []"
  let ?W = "without_rules (unresolved_equalTo ?V) ?V"
  let ?f = "input ''password'' ''confirm'' ''secret'' []"
  have a1: "r_method equalTo_missing = Named ''equalTo''"
    and a2: "r_field equalTo_missing = Some ''#missing''"
    by (simp_all add: equalTo_missing_def)
  have a3: "v_form ?V = Some example_form" by (simp add: example_validator_def)
  have a4: "querySelector example_form ''#missing'' = Inr None" by (simp add: example_form_def)
  have e: "unresolved_equalTo ?V equalTo_missing"
    using a1 a2 a3 a4 by (simp add: unresolved_equalTo_def)
  note t = equalTo_unresolved_target
    [of equalTo_missing "''#missing''" ?V example_form example_host ?f "initial ?f" empty_document]
  from a1 a2 a3 a4 have a: "r_method equalTo_missing = Named ''equalTo''
      \<and> r_field equalTo_missing = Some ''#missing'' \<and> v_form ?V = Some example_form
      \<and> querySelector example_form ''#missing'' = Inr None" by (intro conjI)
  from t[THEN conjunct1] a
  have r1: "rule_step example_host ?V ?f equalTo_missing (initial ?f) = Inr (initial ?f)"
    by (rule mp)
  have d: "declared_rules ?V ?f = [equalTo_missing]"
    by (simp add: example_validator_def declared_rules_def example_settings_def input_def)
  have d': "declared_rules ?W ?f = []"
    unfolding declared_rules_without d using e by simp
  have v: "validateField example_host ?V ?f empty_document
      = Inr (True,
          \<lparr>nodes = [\<lparr>n_tag = ''p'', n_id = ''confirm-error'', n_class = ''error'', n_text = [],
                      n_display = ''none''\<rparr>], visited = [?f]\<rparr>)"
    by (simp add: step_eval field_eval node_eval length_eval regex_eval example_form_def
        equalTo_missing_def rule_step_def equalTo_rule_def)
  from t[THEN conjunct2, THEN conjunct2] v
  have w: "validateField example_host ?W ?f empty_document
      = Inr (True,
          \<lparr>nodes = [\<lparr>n_tag = ''p'', n_id = ''confirm-error'', n_class = ''error'', n_text = [],
                      n_display = ''none''\<rparr>], visited = [?f]\<rparr>)"
    by simp
  from a1 a2 a3 a4 r1 d d' v w show ?thesis by (intro conjI)
qed

section \<open>Properties of validateForm\<close>

lemma forEach_field_result:
  assumes "forEach_field H V fs ok doc = Inr (ok', doc')"
  shows "visited doc' = visited doc @ fs
       \<and> ok' = (ok \<and> list_all (\<lambda>f. \<exists>st. evaluate H V f = Inr st \<and> isValid st) fs)"
  using assms
proof (induction fs arbitrary: ok doc)
  case Nil
  then show ?case by simp
next
  case (Cons f fs)
  from Cons.prems obtain b d1 where v: "validateField H V f doc = Inr (b, d1)"
    and rest: "forEach_field H V fs (if \<not> b then False else ok) d1 = Inr (ok', doc')"
    by (auto split: sum.splits)
  from validateField_result[OF v] obtain st where st: "evaluate H V f = Inr st" "b = isValid st"
    and vis: "visited d1 = visited doc @ [f]" by blast
  from Cons.IH[OF rest] vis st show ?case by auto
qed

lemma forEach_field_total:
  assumes "list_all (\<lambda>f. \<forall>d. \<exists>r. validateField H V f d = Inr r) fs"
  shows "\<exists>r. forEach_field H V fs ok doc = Inr r"
  using assms
proof (induction fs arbitrary: ok doc)
  case Nil
  then show ?case by simp
next
  case (Cons f fs)
  from Cons.prems have "\<exists>r. validateField H V f doc = Inr r" by simp
  then obtain b d1 where v: "validateField H V f doc = Inr (b, d1)" by force
  from Cons.prems have "list_all (\<lambda>f. \<forall>d. \<exists>r. validateField H V f d = Inr r) fs" by simp
  from Cons.IH[OF this, of "if \<not> b then False else ok" d1] v show ?case by simp
qed

lemma forEach_field_throws:
  assumes "f \<in> set fs" "\<forall>d. \<exists>e. validateField H V f d = Inl e"
  shows "\<exists>e. forEach_field H V fs ok doc = Inl e"
  using assms(1)
proof (induction fs arbitrary: ok doc)
  case Nil
  then show ?case by simp
next
  case (Cons g fs)
  show ?case
  proof (cases "validateField H V g doc")
    case (Inl e)
    then show ?thesis by simp
  next
    case (Inr r)
    obtain b d1 where r: "r = (b, d1)" by (cases r)
    from assms(2) obtain e where "validateField H V f doc = Inl e" by blast
    with Inr have "g \<noteq> f" by auto
    with Cons.prems have "f \<in> set fs" by auto
    from Cons.IH[OF this, of "if \<not> b then False else ok" d1] Inr r show ?thesis by simp
  qed
qed

text \<open>
  C7: \<^verbatim>\<open>validateForm\<close> calls \<^verbatim>\<open>validateField\<close> on every tracked field, in order,
  also after one has returned false, and returns true exactly when every one of these
  calls returned true. When \<^verbatim>\<open>validateField\<close> returns on each tracked field,
  \<^verbatim>\<open>validateForm\<close> returns, with every field in the history; whenever \<^verbatim>\<open>validateForm\<close>
  returns, it has called \<^verbatim>\<open>validateField\<close> on every field and its result is the
  conjunction of the verdicts. (A field on which \<^verbatim>\<open>validateField\<close> raises ends the call
  with an exception, wherever the field stands in the list.)
\<close>

theorem validateForm_visits_every_field:
  assumes "v_fields V = Some fs"
  shows "(list_all (\<lambda>f. \<forall>d. \<exists>r. validateField H V f d = Inr r) fs \<longrightarrow>
          (\<exists>doc'. validateForm H V doc =
              Inr (list_all (\<lambda>f. \<exists>st. evaluate H V f = Inr st \<and> isValid st) fs, doc')
            \<and> visited doc' = visited doc @ fs))
       \<and> (\<forall>ok doc'. validateForm H V doc = Inr (ok, doc') \<longrightarrow>
            visited doc' = visited doc @ fs
          \<and> ok = list_all (\<lambda>f. \<exists>st. evaluate H V f = Inr st \<and> isValid st) fs)
       \<and> ((\<exists>f \<in> set fs. \<forall>d. \<exists>e. validateField H V f d = Inl e) \<longrightarrow>
            (\<exists>e. validateForm H V doc = Inl e))"
proof -
  have vf: "validateForm H V doc = forEach_field H V fs True doc"
    using assms by (simp add: validateForm_def)
  have total: "list_all (\<lambda>f. \<forall>d. \<exists>r. validateField H V f d = Inr r) fs \<longrightarrow>
          (\<exists>doc'. validateForm H V doc =
              Inr (list_all (\<lambda>f. \<exists>st. evaluate H V f = Inr st \<and> isValid st) fs, doc')
            \<and> visited doc' = visited doc @ fs)"
  proof
    assume "list_all (\<lambda>f. \<forall>d. \<exists>r. validateField H V f d = Inr r) fs"
    from forEach_field_total[OF this, of True doc]
    obtain ok' doc' where r: "forEach_field H V fs True doc = Inr (ok', doc')" by force
    from forEach_field_result[OF r] r vf
    show "\<exists>doc'. validateForm H V doc =
              Inr (list_all (\<lambda>f. \<exists>st. evaluate H V f = Inr st \<and> isValid st) fs, doc')
            \<and> visited doc' = visited doc @ fs" by simp
  qed
  have result: "\<forall>ok doc'. validateForm H V doc = Inr (ok, doc') \<longrightarrow>
            visited doc' = visited doc @ fs
          \<and> ok = list_all (\<lambda>f. \<exists>st. evaluate H V f = Inr st \<and> isValid st) fs"
  proof (intro allI impI)
    fix ok doc' assume "validateForm H V doc = Inr (ok, doc')"
    with vf have "forEach_field H V fs True doc = Inr (ok, doc')" by simp
    from forEach_field_result[OF this]
    show "visited doc' = visited doc @ fs
          \<and> ok = list_all (\<lambda>f. \<exists>st. evaluate H V f = Inr st \<and> isValid st) fs" by simp
  qed
  have throws: "(\<exists>f \<in> set fs. \<forall>d. \<exists>e. validateField H V f d = Inl e) \<longrightarrow>
            (\<exists>e. validateForm H V doc = Inl e)"
  proof
    assume "\<exists>f \<in> set fs. \<forall>d. \<exists>e. validateField H V f d = Inl e"
    then obtain f where "f \<in> set fs" "\<forall>d. \<exists>e. validateField H V f d = Inl e" by blast
    from forEach_field_throws[OF this, of True doc] vf
    show "\<exists>e. validateForm H V doc = Inl e" by simp
  qed
  from total result throws show ?thesis by (intro conjI)
qed

theorem validateForm_visits_every_field_witness:
  "v_fields (example_validator []
       [input ''text'' ''nick'' [] [(''required'', [])], input ''email'' ''mail'' ''a@b.com'' []])
     = Some [input ''text'' ''nick'' [] [(''required'', [])], input ''email'' ''mail'' ''a@b.com'' []]
   \<and> list_all (\<lambda>f. \<forall>d. \<exists>r. validateField example_host (example_validator []
       [input ''text'' ''nick'' [] [(''required'', [])], input ''email'' ''mail'' ''a@b.com'' []]) f d
         = Inr r)
       [input ''text'' ''nick'' [] [(''required'', [])], input ''email'' ''mail'' ''a@b.com'' []]
   \<and> (\<exists>doc'. validateForm example_host (example_validator []
       [input ''text'' ''nick'' [] [(''required'', [])], input ''email'' ''mail'' ''a@b.com'' []])
         empty_document = Inr (False, doc')
       \<and> visited doc' =
           [input ''text'' ''nick'' [] [(''required'', [])], input ''email'' ''mail'' ''a@b.com'' []])
   \<and> v_fields (example_validator []
       [input ''text'' ''nick'' [] [(''required'', [])], input ''checkbox'' ''tags[]'' ''on'' []])
     = Some [input ''text'' ''nick'' [] [(''required'', [])], input ''checkbox'' ''tags[]'' ''on'' []]
   \<and> (\<forall>d. \<exists>e. validateField example_host (example_validator []
       [input ''text'' ''nick'' [] [(''required'', [])], input ''checkbox'' ''tags[]'' ''on'' []])
         (input ''checkbox'' ''tags[]'' ''on'' []) d = Inl e)
   \<and> (\<exists>e. validateForm example_host (example_validator []
       [input ''text'' ''nick'' [] [(''required'', [])], input ''checkbox'' ''tags[]'' ''on'' []])
         empty_document = Inl e)"
proof -
  let ?n = "input ''text'' ''nick'' [] [(''required'', [])]"
  let ?m = "input ''email'' ''mail'' ''a@b.com'' []"
  let ?c = "input ''checkbox'' ''tags[]'' ''on'' []"
  let ?V = "example_validator [] [?n, ?m]"
  let ?W = "example_validator [] [?n, ?c]"
  have v: "v_fields ?V = Some [?n, ?m]" and w: "v_fields ?W = Some [?n, ?c]"
    by (simp_all add: example_validator_def)
  have en: "evaluate example_host ?V ?n =
      Inr \<lparr>isValid = False, errorMessage = ''This field is required.'', calls = [CallNotEmpty]\<rparr>"
    by (simp add: step_eval field_eval)
  have em: "evaluate example_host ?V ?m =
      Inr \<lparr>isValid = True, errorMessage = [], calls = [CallValidEmail]\<rparr>"
    by (simp add: step_eval field_eval email_eval Let_def)
  have qn: "required_query ?V ?n = Inr ()" and qm: "required_query ?V ?m = Inr ()"
    by (simp_all add: required_query_def field_eval)
  have sn: "Selector_parse example_host (''#'' @ errorHelpId ?n)
      = Inr (first_index (\<lambda>n. n_id n = ''nick-error''))"
    by (simp add: example_host_def errorHelpId_def input_def is_alnum_hyphen_def regex_eval)
  have sm: "Selector_parse example_host (''#'' @ errorHelpId ?m)
      = Inr (first_index (\<lambda>n. n_id n = ''mail-error''))"
    by (simp add: example_host_def errorHelpId_def input_def is_alnum_hyphen_def regex_eval)
  have cl: "errorFieldClass ?V = Inr ()"
    by (simp add: errorFieldClass_def example_validator_def example_settings_def)
  have pl: "v_settings ?V = Some s \<Longrightarrow>
      s_errorPlacement s = None \<and> (\<exists>item. errorHelpItem example_host s f = Inr item)" for s f
    by (auto simp: example_validator_def example_settings_def errorHelpItem_def example_host_def
        regex_eval)
  from validateField_returns[OF en qn sn cl pl]
  have rn: "\<forall>d. \<exists>r. validateField example_host ?V ?n d = Inr r" by blast
  from validateField_returns[OF em qm sm cl pl]
  have rm: "\<forall>d. \<exists>r. validateField example_host ?V ?m d = Inr r" by blast
  from rn rm have all: "list_all (\<lambda>f. \<forall>d. \<exists>r. validateField example_host ?V f d = Inr r) [?n, ?m]"
    by simp
  from en em have res: "list_all (\<lambda>f. \<exists>st. evaluate example_host ?V f = Inr st \<and> isValid st)
      [?n, ?m] = False"
    by simp
  from validateForm_visits_every_field [OF v, of example_host empty_document, THEN conjunct1] all
  have "\<exists>doc'. validateForm example_host ?V empty_document =
              Inr (list_all (\<lambda>f. \<exists>st. evaluate example_host ?V f = Inr st \<and> isValid st)
                     [?n, ?m], doc')
            \<and> visited doc' = visited empty_document @ [?n, ?m]"
    by (rule mp)
  then have r1: "\<exists>doc'. validateForm example_host ?V empty_document = Inr (False, doc')
       \<and> visited doc' = [?n, ?m]"
    unfolding res by (simp add: empty_document_def)
  have wc: "\<forall>d. \<exists>e. validateField example_host ?W ?c d = Inl e"
    by (simp add: step_eval field_eval node_eval length_eval regex_eval)
  then have "\<exists>f \<in> set [?n, ?c]. \<forall>d. \<exists>e. validateField example_host ?W f d = Inl e" by simp
  with validateForm_visits_every_field [OF w, of example_host empty_document,
      THEN conjunct2, THEN conjunct2]
  have r2: "\<exists>e. validateForm example_host ?W empty_document = Inl e"
    by (rule mp)
  from v all r1 w wc r2 show ?thesis by (intro conjI)
qed

end
